theory Spec2Isabelle
  imports Complex_Main
begin

section \<open>Voice authentication: the program (voiceAuth.js)\<close>

text \<open>
  The class \<^verbatim>\<open>VoiceAuthenticator\<close> of \<^verbatim>\<open>voiceAuth.js\<close>, function by function.

  Numbers. A JavaScript number is an IEEE double; here it is a \<^typ>\<open>real\<close>. Rounding and
  overflow are not part of the model (nor is the single precision of the
  \<^verbatim>\<open>Float32Array\<close> that \<^verbatim>\<open>preEmphasis\<close> fills), with one exception:
  \<^verbatim>\<open>cosineSimilarity\<close> is given twice, in exact arithmetic and, as \<open>cosineSimilarity_double\<close>,
  with every operation rounded to the nearest double. The sample rate is a whole number
  of Hz, a \<^typ>\<open>nat\<close>.

  Failures. An exception is a value of \<open>exn\<close>: the \<^verbatim>\<open>TypeError\<close> and \<^verbatim>\<open>RangeError\<close>
  that the runtime throws, and \<open>Error\<close> for any other (TensorFlow.js throws its own). A
  function that can only throw or return has a result in \<open>exn + 'a\<close>. The numeric stages
  have a result in \<open>fault + 'a\<close>: \<open>Thrown e\<close> is the exception \<open>e\<close>, and \<open>NonFinite\<close>, no
  exception, marks the places where JavaScript arithmetic on finite numbers leaves the reals
  (\<^verbatim>\<open>0/0\<close>, the logarithm of a number that is not positive, arithmetic on \<^verbatim>\<open>undefined\<close>)
  and yields \<^verbatim>\<open>NaN\<close> or an infinity. The real-valued model ends there; \<^verbatim>\<open>extractMFCC\<close>
  never does (lemma \<open>extractMFCC_finite\<close>).

  A loop that may run forever (\<^verbatim>\<open>frameSignal\<close> with a step of zero samples) has the
  result \<open>None\<close>.
\<close>

datatype exn = TypeError | RangeError | Error

datatype fault = Thrown exn | NonFinite

text \<open>The first failure ends a computation: sequencing, and \<^verbatim>\<open>Array.prototype.map\<close>
  with a callback that may fail (elements are visited in order).\<close>

definition and_then :: "fault + 'a \<Rightarrow> ('a \<Rightarrow> fault + 'b) \<Rightarrow> fault + 'b" where
  "and_then r k = (case r of Inl e \<Rightarrow> Inl e | Inr x \<Rightarrow> k x)"

fun map_result :: "('a \<Rightarrow> fault + 'b) \<Rightarrow> 'a list \<Rightarrow> fault + 'b list" where
  "map_result f [] = Inr []"
| "map_result f (x # xs) =
     (case f x of
        Inl e \<Rightarrow> Inl e
      | Inr y \<Rightarrow> (case map_result f xs of Inl e \<Rightarrow> Inl e | Inr ys \<Rightarrow> Inr (y # ys)))"

text \<open>\<^verbatim>\<open>Math.max(x, ...xs)\<close> of at least one number. (\<^verbatim>\<open>Math.max()\<close> of no argument is
  \<^verbatim>\<open>-Infinity\<close>; the callers below treat the empty list apart.)\<close>

definition Math_max :: "real \<Rightarrow> real list \<Rightarrow> real" where
  "Math_max x xs = fold max xs x"

text \<open>Reading \<^verbatim>\<open>xs[i]\<close> from a JavaScript array: \<open>None\<close> is \<^verbatim>\<open>undefined\<close>, out of range
  or at a hole. Writing \<^verbatim>\<open>xs[j] = v\<close>: in range the slot is replaced; at or beyond the length
  the array grows to length \<open>j + 1\<close> and the slots skipped are holes.\<close>

definition js_index :: "'a option list \<Rightarrow> nat \<Rightarrow> 'a option" where
  "js_index xs i = (if i < length xs then xs ! i else None)"

definition js_store :: "'a option list \<Rightarrow> nat \<Rightarrow> 'a \<Rightarrow> 'a option list" where
  "js_store xs j v =
     (if j < length xs then xs[j := Some v]
      else xs @ replicate (j - length xs) None @ [Some v])"

subsection \<open>Spectral feature extraction\<close>

text \<open>\<^verbatim>\<open>normalizeAudio\<close>: every sample divided by the largest absolute sample plus 1e-8.\<close>

definition normalizeAudio :: "real list \<Rightarrow> real list" where
  "normalizeAudio audioData =
     (case map abs audioData of
        [] \<Rightarrow> []
      | m # ms \<Rightarrow> map (\<lambda>x. x / (Math_max m ms + 1 / 10 ^ 8)) audioData)"

text \<open>\<^verbatim>\<open>preEmphasis\<close> with its default \<open>alpha = 0.97\<close>. On an empty signal the write
  \<^verbatim>\<open>emphasized[0] = signal[0]\<close> to the empty typed array does nothing.\<close>

definition preEmphasis :: "real list \<Rightarrow> real list" where
  "preEmphasis signal =
     map (\<lambda>i. if i = 0 then signal ! 0 else signal ! i - 0.97 * signal ! (i - 1))
       [0..<length signal]"

text \<open>\<^verbatim>\<open>frameSignal\<close>: the loop
  \<^verbatim>\<open>for (let i = 0; i + frameLength <= signal.length; i += frameStep)\<close>.
  With \<open>frameStep = 0\<close> the index never moves.\<close>

partial_function (option) frameSignal_loop ::
  "real list \<Rightarrow> nat \<Rightarrow> nat \<Rightarrow> nat \<Rightarrow> real list list \<Rightarrow> real list list option" where
  "frameSignal_loop signal frameLength frameStep i frames =
     (if i + frameLength \<le> length signal
      then frameSignal_loop signal frameLength frameStep (i + frameStep)
             (frames @ [take frameLength (drop i signal)])
      else Some frames)"

definition frameSignal :: "real list \<Rightarrow> nat \<Rightarrow> nat \<Rightarrow> real list list option" where
  "frameSignal signal frameLength frameStep = frameSignal_loop signal frameLength frameStep 0 []"

text \<open>\<^verbatim>\<open>hammingWindow\<close>. For a frame of one sample \<^verbatim>\<open>2 * Math.PI * 0 / (1 - 1)\<close> is
  \<^verbatim>\<open>0/0 = NaN\<close>.\<close>

definition hammingWindow :: "real list \<Rightarrow> fault + real list" where
  "hammingWindow frame =
     (let N = length frame in
      if N = 1 then Inl NonFinite
      else Inr (map (\<lambda>n. frame ! n * (0.54 - 0.46 * cos (2 * pi * real n / (real N - 1))))
                  [0..<N]))"

text \<open>\<^verbatim>\<open>computePowerSpectrum\<close>. \<^verbatim>\<open>new Array(N / 2)\<close> throws a \<^verbatim>\<open>RangeError\<close> (invalid
  array length) when \<open>N / 2\<close> is not a whole number.\<close>

definition dft_bin :: "real list \<Rightarrow> nat \<Rightarrow> real \<times> real" where
  "dft_bin frame k =
     fold (\<lambda>n (re, im).
             let angle = - 2 * pi * real k * real n / real (length frame)
             in (re + frame ! n * cos angle, im + frame ! n * sin angle))
       [0..<length frame] (0, 0)"

definition computePowerSpectrum :: "real list \<Rightarrow> fault + real list" where
  "computePowerSpectrum frame =
     (let N = length frame in
      if odd N then Inl (Thrown RangeError)
      else Inr (map (\<lambda>k. case dft_bin frame k of (re, im) \<Rightarrow> (re * re + im * im) / real N)
                  [0..<N div 2]))"

definition hzToMel :: "real \<Rightarrow> real" where
  "hzToMel hz = 2595 * log 10 (1 + hz / 700)"

definition melToHz :: "real \<Rightarrow> real" where
  "melToHz mel = 700 * (10 powr (mel / 2595) - 1)"

text \<open>\<^verbatim>\<open>createMelFilterBank\<close>. \<open>mel_bins\<close> is its local array \<^verbatim>\<open>bins\<close>. The points are
  not negative, so \<^verbatim>\<open>Math.floor\<close> gives an index, a \<^typ>\<open>nat\<close>.\<close>

definition mel_bins :: "nat \<Rightarrow> nat \<Rightarrow> nat \<Rightarrow> nat list" where
  "mel_bins numFilters fftSize sampleRate =
     (let lowFreqMel = hzToMel 0;
          highFreqMel = hzToMel (real sampleRate / 2);
          melPoints = map (\<lambda>i. lowFreqMel + (highFreqMel - lowFreqMel) * real i
                                   / (real numFilters + 1)) [0..<numFilters + 2];
          hzPoints = map melToHz melPoints
      in map (\<lambda>hz. nat \<lfloor>(real fftSize + 1) * hz / real sampleRate\<rfloor>) hzPoints)"

definition mel_filter :: "nat list \<Rightarrow> nat \<Rightarrow> nat \<Rightarrow> real option list" where
  "mel_filter bins fftSize i =
     (let filter0 = replicate fftSize (Some 0);
          rising = fold (\<lambda>j f. js_store f j
                      ((real j - real (bins ! (i - 1))) / (real (bins ! i) - real (bins ! (i - 1)))))
                    [bins ! (i - 1)..<bins ! i] filter0
      in fold (\<lambda>j f. js_store f j
                 ((real (bins ! (i + 1)) - real j) / (real (bins ! (i + 1)) - real (bins ! i))))
           [bins ! i..<bins ! (i + 1)] rising)"

definition createMelFilterBank :: "nat \<Rightarrow> nat \<Rightarrow> nat \<Rightarrow> real option list list" where
  "createMelFilterBank numFilters fftSize sampleRate =
     (let bins = mel_bins numFilters fftSize sampleRate
      in map (\<lambda>i. mel_filter bins fftSize i) [1..<numFilters + 1])"

text \<open>\<^verbatim>\<open>applyMelFilterBank\<close> with its default \<open>numFilters = 26\<close>. \<open>mel_energy\<close> is the
  body of the loop over \<open>i\<close>: the weighted sum over \<open>j\<close>, then \<^verbatim>\<open>Math.log(sum + 1e-8)\<close>.\<close>

definition mel_energy :: "real list \<Rightarrow> real option list option \<Rightarrow> fault + real" where
  "mel_energy powerSpectrum melFilter =
     and_then
       (fold (\<lambda>j acc. and_then acc (\<lambda>s.
                case melFilter of
                  None \<Rightarrow> Inl (Thrown TypeError)
                | Some f \<Rightarrow> (case js_index f j of
                               None \<Rightarrow> Inl NonFinite
                             | Some w \<Rightarrow> Inr (s + powerSpectrum ! j * w))))
          [0..<length powerSpectrum] (Inr 0))
       (\<lambda>s. if s + 1 / 10 ^ 8 \<le> 0 then Inl NonFinite else Inr (ln (s + 1 / 10 ^ 8)))"

definition applyMelFilterBank :: "real list \<Rightarrow> nat \<Rightarrow> fault + real list" where
  "applyMelFilterBank powerSpectrum sampleRate =
     (let numFilters = 26;
          melFilters = createMelFilterBank numFilters (length powerSpectrum) sampleRate
      in map_result (\<lambda>i. mel_energy powerSpectrum
                           (if i < length melFilters then Some (melFilters ! i) else None))
           [0..<numFilters])"

text \<open>\<^verbatim>\<open>computeDCT\<close> with its default \<open>numCoeffs = 13\<close>.\<close>

definition computeDCT :: "real list \<Rightarrow> real list" where
  "computeDCT melSpectrum =
     (let N = length melSpectrum in
      map (\<lambda>k. fold (\<lambda>n s. s + melSpectrum ! n * cos (pi * real k * (real n + 0.5) / real N))
                  [0..<N] 0)
        [0..<13])"

text \<open>\<^verbatim>\<open>averageFeatures\<close>. On no features \<^verbatim>\<open>features[0].length\<close> reads a property of
  \<^verbatim>\<open>undefined\<close>: a \<^verbatim>\<open>TypeError\<close>. A feature shorter than the first one gives
  \<^verbatim>\<open>avg[i] += undefined\<close>.\<close>

definition add_feature :: "nat \<Rightarrow> real list \<Rightarrow> real list \<Rightarrow> fault + real list" where
  "add_feature numFeatures avg feature =
     (if length feature < numFeatures then Inl NonFinite
      else Inr (map (\<lambda>i. avg ! i + feature ! i) [0..<numFeatures]))"

definition averageFeatures :: "real list list \<Rightarrow> fault + real list" where
  "averageFeatures features =
     (case features of
        [] \<Rightarrow> Inl (Thrown TypeError)
      | first # _ \<Rightarrow>
          (let numFeatures = length first in
           and_then
             (fold (\<lambda>feature acc. and_then acc (\<lambda>avg. add_feature numFeatures avg feature))
                features (Inr (replicate numFeatures 0)))
             (\<lambda>avg. Inr (map (\<lambda>x. x / real (length features)) avg))))"

text \<open>\<^verbatim>\<open>extractMFCC\<close>, from the channel data and the sample rate of the audio buffer.
  \<open>frameLength_of\<close> and \<open>frameStep_of\<close> are its local constants \<^verbatim>\<open>frameLength\<close> (25 ms of
  samples) and \<^verbatim>\<open>frameStep\<close> (10 ms). For a whole number of Hz the double product and the
  real one have the same floor: the doubles nearest to 0.025 and 0.010 lie above them by
  less than \<open>10\<^sup>-\<^sup>1\<^sup>7\<close>, and a product that is not whole is at least 1/100 away from the
  next whole number.\<close>

definition frameLength_of :: "nat \<Rightarrow> nat" where
  "frameLength_of sampleRate = nat \<lfloor>0.025 * real sampleRate\<rfloor>"

definition frameStep_of :: "nat \<Rightarrow> nat" where
  "frameStep_of sampleRate = nat \<lfloor>0.010 * real sampleRate\<rfloor>"

definition extractMFCC :: "real list \<Rightarrow> nat \<Rightarrow> (fault + real list) option" where
  "extractMFCC audioData sampleRate =
     (let normalizedAudio = normalizeAudio audioData;
          emphasized = preEmphasis normalizedAudio;
          frameLength = frameLength_of sampleRate;
          frameStep = frameStep_of sampleRate
      in case frameSignal emphasized frameLength frameStep of
           None \<Rightarrow> None
         | Some frames \<Rightarrow> Some (
             and_then (map_result (\<lambda>frame. and_then (hammingWindow frame) computePowerSpectrum)
                         frames) (\<lambda>powerSpectrum.
             and_then (map_result (\<lambda>spectrum. applyMelFilterBank spectrum sampleRate)
                         powerSpectrum) (\<lambda>melSpectrum.
             averageFeatures (map computeDCT melSpectrum)))))"

subsection \<open>Matching\<close>

text \<open>\<^verbatim>\<open>cosineSimilarity\<close>: one loop over the first \<open>min\<close> of the two lengths. This is the
  function read in exact real arithmetic: what it returns differs from the double that the
  code returns by the rounding of each operation (and where a sum overflows, the code
  returns \<^verbatim>\<open>NaN\<close> or 0).\<close>

definition cosineSimilarity :: "real list \<Rightarrow> real list \<Rightarrow> real" where
  "cosineSimilarity embedding1 embedding2 =
     (case fold (\<lambda>i (dotProduct, norm1, norm2).
                   (dotProduct + embedding1 ! i * embedding2 ! i,
                    norm1 + embedding1 ! i * embedding1 ! i,
                    norm2 + embedding2 ! i * embedding2 ! i))
             [0..<min (length embedding1) (length embedding2)] (0, 0, 0) of
        (dotProduct, norm1, norm2) \<Rightarrow> dotProduct / (sqrt norm1 * sqrt norm2 + 1 / 10 ^ 8))"










subsection \<open>Embedding\<close>

text \<open>The TensorFlow.js model is an external collaborator. Of the calls inside the
  \<^verbatim>\<open>try\<close> block (\<^verbatim>\<open>tf.tensor3d\<close>, \<^verbatim>\<open>model.predict\<close>, \<^verbatim>\<open>embedding.array()\<close>, the two
  \<^verbatim>\<open>dispose\<close> calls, \<^verbatim>\<open>embeddingArray[0]\<close>) a \<open>tf_model\<close> is what they do together: from the
  128 padded features, an embedding (the one row of a prediction on a batch of one) or a
  thrown exception.\<close>

type_synonym tf_model = "real list \<Rightarrow> exn + real list"

text \<open>\<^verbatim>\<open>try { body } catch (error) { handler }\<close>.\<close>

definition try_catch :: "exn + 'a \<Rightarrow> (exn \<Rightarrow> exn + 'a) \<Rightarrow> exn + 'a" where
  "try_catch body handler = (case body of Inl error \<Rightarrow> handler error | Inr x \<Rightarrow> Inr x)"

text \<open>The fields of the class that the handlers read and write. \<open>pendingUnlocks\<close> and
  \<open>dispatched\<close> are the environment: the timers set by
  \<^verbatim>\<open>setTimeout(() => this.unlockSystem(), 1000)\<close> that have not fired yet, and the events
  dispatched on \<^verbatim>\<open>window\<close>, oldest first. The media recorder, the audio chunks and the page
  elements are left out.\<close>

record authenticator =
  model :: "tf_model option"
  voiceEmbeddings :: "real list list"
  recordingCount :: nat
  isLocked :: bool
  threshold :: real
  modelLoaded :: bool
  pendingUnlocks :: nat
  dispatched :: "string list"

text \<open>The constructor, before \<^verbatim>\<open>loadModel\<close> has run; and \<^verbatim>\<open>loadModel\<close>, given what
  \<^verbatim>\<open>tf.sequential\<close> returns (\<open>None\<close>: it threw, and the \<^verbatim>\<open>catch\<close> leaves the fields as
  they are).\<close>

definition new_authenticator :: authenticator where
  "new_authenticator =
     \<lparr>model = None, voiceEmbeddings = [], recordingCount = 0, isLocked = True,
      threshold = 0.75, modelLoaded = False, pendingUnlocks = 0, dispatched = []\<rparr>"

definition loadModel :: "authenticator \<Rightarrow> tf_model option \<Rightarrow> authenticator" where
  "loadModel st sequential =
     (case sequential of
        None \<Rightarrow> st
      | Some m \<Rightarrow> st\<lparr>model := Some m, modelLoaded := True\<rparr>)"

text \<open>\<^verbatim>\<open>extractDeepEmbedding\<close>. \<open>pad128\<close> is \<^verbatim>\<open>mfcc.slice(0, 128)\<close> followed by the loop
  that pushes zeros up to 128 features; the slice is a copy, so \<^verbatim>\<open>mfcc\<close> is the caller's
  vector still when the \<^verbatim>\<open>catch\<close> returns it.\<close>

definition pad128 :: "real list \<Rightarrow> real list" where
  "pad128 mfcc = take 128 mfcc @ replicate (128 - length (take 128 mfcc)) 0"

definition extractDeepEmbedding :: "authenticator \<Rightarrow> real list \<Rightarrow> exn + real list" where
  "extractDeepEmbedding st mfcc =
     (if \<not> modelLoaded st then Inr mfcc
      else case model st of
        None \<Rightarrow> Inr mfcc
      | Some predict \<Rightarrow> try_catch (predict (pad128 mfcc)) (\<lambda>error. Inr mfcc))"

subsection \<open>Enrollment, verification, reset\<close>

text \<open>What the page hands to a click handler: the microphone is refused
  (\<^verbatim>\<open>getUserMedia\<close> rejects), or three seconds of audio are recorded and decoded to channel
  data and a sample rate.\<close>

datatype capture = MicDenied | Captured "real list" nat

record verdict =
  similarities :: "real list"
  avgSimilarity :: real
  maxSimilarity :: real
  accepted :: bool

text \<open>How a handler ends: with an \<^verbatim>\<open>alert\<close> and a return; with an exception nobody
  catches (the promise of the \<^verbatim>\<open>async\<close> handler is rejected); with a stored sample
  (\<open>True\<close>: \<^verbatim>\<open>completeVoiceSetup\<close> was called); with the matcher's decision.
  \<open>Untracked\<close>: the extraction left the reals, and what the handler does with features that
  are not numbers is not modelled (by lemma \<open>extractMFCC_finite\<close> it does not happen).\<close>

datatype outcome =
  Alert string | Unhandled exn | SampleStored bool | Decision verdict | Untracked

text \<open>The \<^verbatim>\<open>onstop\<close> handler of \<^verbatim>\<open>recordVoiceSample\<close>.\<close>

definition recordVoiceSample_onstop ::
  "authenticator \<Rightarrow> real list \<Rightarrow> nat \<Rightarrow> (authenticator \<times> outcome) option" where
  "recordVoiceSample_onstop st audioData sampleRate =
     (case extractMFCC audioData sampleRate of
        None \<Rightarrow> None
      | Some (Inl NonFinite) \<Rightarrow> Some (st, Untracked)
      | Some (Inl (Thrown e)) \<Rightarrow> Some (st, Unhandled e)
      | Some (Inr mfcc) \<Rightarrow>
          (case extractDeepEmbedding st mfcc of
             Inl e \<Rightarrow> Some (st, Unhandled e)
           | Inr embedding \<Rightarrow>
               (let st1 = st\<lparr>voiceEmbeddings := voiceEmbeddings st @ [embedding]\<rparr>;
                    st2 = st1\<lparr>recordingCount := recordingCount st1 + 1\<rparr>
                in Some (st2, SampleStored (\<not> recordingCount st2 < 3)))))"

definition recordVoiceSample :: "authenticator \<Rightarrow> capture \<Rightarrow> (authenticator \<times> outcome) option" where
  "recordVoiceSample st cap =
     (if \<not> modelLoaded st then Some (st, Alert ''Please wait for the AI model to load'')
      else case cap of
        MicDenied \<Rightarrow>
          Some (st, Alert ''Please allow microphone access for voice authentication'')
      | Captured audioData sampleRate \<Rightarrow> recordVoiceSample_onstop st audioData sampleRate)"

text \<open>The decision of the \<^verbatim>\<open>onstop\<close> handler of \<^verbatim>\<open>authenticateVoice\<close>, from the
  similarity scores. \<^verbatim>\<open>similarities.reduce((a, b) => a + b)\<close> of an empty array, with no
  initial value, throws a \<^verbatim>\<open>TypeError\<close>.\<close>

definition decide :: "real \<Rightarrow> real list \<Rightarrow> exn + verdict" where
  "decide thr sims =
     (case sims of
        [] \<Rightarrow> Inl TypeError
      | s # ss \<Rightarrow>
          (let avg = foldl (+) s ss / real (length sims);
               mx = Math_max s ss
           in Inr \<lparr>similarities = sims, avgSimilarity = avg, maxSimilarity = mx,
                   accepted = (mx > thr)\<rparr>))"

definition authenticateVoice_onstop ::
  "authenticator \<Rightarrow> real list \<Rightarrow> nat \<Rightarrow> (authenticator \<times> outcome) option" where
  "authenticateVoice_onstop st audioData sampleRate =
     (case extractMFCC audioData sampleRate of
        None \<Rightarrow> None
      | Some (Inl NonFinite) \<Rightarrow> Some (st, Untracked)
      | Some (Inl (Thrown e)) \<Rightarrow> Some (st, Unhandled e)
      | Some (Inr mfcc) \<Rightarrow>
          (case extractDeepEmbedding st mfcc of
             Inl e \<Rightarrow> Some (st, Unhandled e)
           | Inr embedding \<Rightarrow>
               (case decide (threshold st)
                       (map (\<lambda>storedEmbedding. cosineSimilarity embedding storedEmbedding)
                          (voiceEmbeddings st)) of
                  Inl e \<Rightarrow> Some (st, Unhandled e)
                | Inr v \<Rightarrow>
                    Some (if accepted v then st\<lparr>pendingUnlocks := pendingUnlocks st + 1\<rparr>
                          else st, Decision v))))"

definition authenticateVoice :: "authenticator \<Rightarrow> capture \<Rightarrow> (authenticator \<times> outcome) option" where
  "authenticateVoice st cap =
     (if voiceEmbeddings st = []
      then Some (st, Alert ''No voice profile found. Please record samples first.'')
      else case cap of
        MicDenied \<Rightarrow> Some (st, Alert ''Microphone access required for authentication'')
      | Captured audioData sampleRate \<Rightarrow> authenticateVoice_onstop st audioData sampleRate)"

definition unlockSystem :: "authenticator \<Rightarrow> authenticator" where
  "unlockSystem st = st\<lparr>isLocked := False, dispatched := dispatched st @ [''voiceUnlocked'']\<rparr>"

definition resetVoiceProfile :: "authenticator \<Rightarrow> authenticator" where
  "resetVoiceProfile st = st\<lparr>voiceEmbeddings := [], recordingCount := 0, isLocked := True\<rparr>"

definition getLockedState :: "authenticator \<Rightarrow> bool" where
  "getLockedState st = isLocked st"

text \<open>What can happen to the page, one event at a time: a click on one of the three
  buttons (a click on record or authenticate is taken together with its recording), or
  an unlock timer firing. \<open>run\<close> is a sequence of them.\<close>

datatype event =
  RecordClick capture | AuthenticateClick capture | ResetClick | UnlockTimeout

definition step :: "authenticator \<Rightarrow> event \<Rightarrow> authenticator option" where
  "step st ev =
     (case ev of
        RecordClick cap \<Rightarrow> map_option fst (recordVoiceSample st cap)
      | AuthenticateClick cap \<Rightarrow> map_option fst (authenticateVoice st cap)
      | ResetClick \<Rightarrow> Some (resetVoiceProfile st)
      | UnlockTimeout \<Rightarrow>
          (if pendingUnlocks st = 0 then Some st
           else Some (unlockSystem (st\<lparr>pendingUnlocks := pendingUnlocks st - 1\<rparr>))))"

fun run :: "authenticator \<Rightarrow> event list \<Rightarrow> authenticator option" where
  "run st [] = Some st"
| "run st (ev # evs) = (case step st ev of None \<Rightarrow> None | Some st' \<Rightarrow> run st' evs)"

subsection \<open>The cosine similarity of the spec\<close>




subsection \<open>Predicates of the proofs\<close>

text \<open>What the two loops of \<^verbatim>\<open>createMelFilterBank\<close> keep true of a filter: the first
  \<open>n\<close> slots hold weights, none negative.\<close>

definition filter_inv :: "nat \<Rightarrow> real option list \<Rightarrow> bool" where
  "filter_inv n f = (n \<le> length f \<and> (\<forall>j<n. \<exists>w. f ! j = Some w \<and> 0 \<le> w))"

text \<open>A capture that enrollment can use: audio was recorded, and its extraction returns a
  feature vector.\<close>

definition succeeds :: "capture \<Rightarrow> bool" where
  "succeeds cap =
     (case cap of
        MicDenied \<Rightarrow> False
      | Captured audioData sampleRate \<Rightarrow>
          (case extractMFCC audioData sampleRate of Some (Inr mfcc) \<Rightarrow> True | _ \<Rightarrow> False))"

subsection \<open>Concrete inputs\<close>

text \<open>Two stand-ins for the TensorFlow.js model, for the concrete runs below: one embeds
  every input as the vector \<open>[1]\<close>, the other always throws.\<close>

definition unit_model :: tf_model where
  "unit_model features = Inr [1]"

definition failing_model :: tf_model where
  "failing_model features = Inl Error"

text \<open>The authenticator after its constructor and \<^verbatim>\<open>loadModel\<close>, with the model that
  embeds every input as \<open>[1]\<close>; a capture of 200 samples of silence at 8000 Hz (one frame
  of 200 samples); and the authenticator after three such captures.\<close>

definition loaded_unit :: authenticator where
  "loaded_unit = loadModel new_authenticator (Some unit_model)"

definition silence_8000 :: capture where
  "silence_8000 = Captured (replicate 200 0) 8000"

definition enrolled_three :: authenticator where
  "enrolled_three = loaded_unit\<lparr>voiceEmbeddings := [[1], [1], [1]], recordingCount := 3\<rparr>"

text \<open>An enrolled profile whose three embeddings all point away from \<open>[1]\<close>; and an
  unlocked authenticator with one accepted attempt whose timer has not fired yet.\<close>

definition enrolled_opposite :: authenticator where
  "enrolled_opposite =
     (loadModel new_authenticator (Some unit_model))
       \<lparr>voiceEmbeddings := [[- 1], [- 1], [- 1]], recordingCount := 3\<rparr>"

definition unlocked_pending :: authenticator where
  "unlocked_pending =
     loaded_unit\<lparr>voiceEmbeddings := [[1], [1], [1]], recordingCount := 3, isLocked := False,
                 pendingUnlocks := 1, dispatched := [''voiceUnlocked'']\<rparr>"

section \<open>The stages of the extraction\<close>

lemma map_result_Inr:
  assumes "\<And>x. x \<in> set xs \<Longrightarrow> \<exists>y. f x = Inr y \<and> P y"
  shows "\<exists>ys. map_result f xs = Inr ys \<and> length ys = length xs \<and> list_all P ys"
  using assms
proof (induction xs)
  case Nil
  then show ?case by simp
next
  case (Cons x xs)
  from Cons.prems obtain y where y: "f x = Inr y" "P y" by auto
  from Cons obtain ys where "map_result f xs = Inr ys" "length ys = length xs" "list_all P ys"
    by auto
  with y show ?case by simp
qed

text \<open>\<^verbatim>\<open>frameSignal\<close> returns when the step is positive, and only then if there is a frame
  to take.\<close>

lemma frameSignal_loop_terminates:
  assumes "0 < frameStep"
  shows "\<exists>fr. frameSignal_loop signal frameLength frameStep i frames = Some (frames @ fr)
           \<and> list_all (\<lambda>f. \<exists>k. k + frameLength \<le> length signal
                                \<and> f = take frameLength (drop k signal)) fr
           \<and> (fr = []) = (\<not> i + frameLength \<le> length signal)"
proof (induction "Suc (length signal) - i" arbitrary: i frames rule: less_induct)
  case less
  show ?case
  proof (cases "i + frameLength \<le> length signal")
    case True
    then have "Suc (length signal) - (i + frameStep) < Suc (length signal) - i"
      using assms by linarith
    from less[OF this, of "frames @ [take frameLength (drop i signal)]"]
    obtain fr where fr: "frameSignal_loop signal frameLength frameStep (i + frameStep)
          (frames @ [take frameLength (drop i signal)])
         = Some ((frames @ [take frameLength (drop i signal)]) @ fr)"
        "list_all (\<lambda>f. \<exists>k. k + frameLength \<le> length signal
                                \<and> f = take frameLength (drop k signal)) fr"
      by blast
    with True show ?thesis
      by (subst frameSignal_loop.simps)
         (auto intro!: exI[of _ "take frameLength (drop i signal) # fr"])
  next
    case False
    then show ?thesis
      by (subst frameSignal_loop.simps) simp
  qed
qed

lemma frameSignal_loop_stuck:
  assumes "frameSignal_loop signal frameLength frameStep i frames = Some y"
  shows "\<not> (frameStep = 0 \<and> i + frameLength \<le> length signal)"
proof (rule frameSignal_loop.raw_induct
    [where P = "\<lambda>s fl fs i fr y. \<not> (fs = 0 \<and> i + fl \<le> length s)", OF _ assms])
  fix loop :: "real list \<Rightarrow> nat \<Rightarrow> nat \<Rightarrow> nat \<Rightarrow> real list list \<Rightarrow> real list list option"
  fix s fl fs i fr y
  assume IH: "\<And>s fl fs i fr y. loop s fl fs i fr = Some y \<Longrightarrow> \<not> (fs = 0 \<and> i + fl \<le> length s)"
  assume body: "(if i + fl \<le> length s then loop s fl fs (i + fs) (fr @ [take fl (drop i s)])
      else Some fr) = Some y"
  show "\<not> (fs = 0 \<and> i + fl \<le> length s)"
  proof
    assume stuck: "fs = 0 \<and> i + fl \<le> length s"
    with body have "loop s fl fs (i + fs) (fr @ [take fl (drop i s)]) = Some y"
      by simp
    from IH[OF this] stuck show False by simp
  qed
qed

lemma frameSignal_loop_diverges:
  "frameStep = 0 \<Longrightarrow> i + frameLength \<le> length signal \<Longrightarrow>
     frameSignal_loop signal frameLength frameStep i frames = None"
  using frameSignal_loop_stuck[of signal frameLength frameStep i frames]
  by (cases "frameSignal_loop signal frameLength frameStep i frames") auto

lemma frameSignal_none:
  "length signal < frameLength \<Longrightarrow> frameSignal signal frameLength frameStep = Some []"
  unfolding frameSignal_def by (subst frameSignal_loop.simps) simp

lemma frameSignal_some:
  assumes "0 < frameStep" "frameLength \<le> length signal"
  shows "\<exists>f fr. frameSignal signal frameLength frameStep = Some (f # fr)
          \<and> list_all (\<lambda>f. length f = frameLength) (f # fr)
          \<and> list_all (\<lambda>f. \<exists>k. k + frameLength \<le> length signal
                               \<and> f = take frameLength (drop k signal)) (f # fr)"
proof -
  from frameSignal_loop_terminates[OF assms(1), of signal frameLength 0 "[]"] assms(2)
  obtain fr where fr: "frameSignal signal frameLength frameStep = Some fr"
    "list_all (\<lambda>f. \<exists>k. k + frameLength \<le> length signal
                  \<and> f = take frameLength (drop k signal)) fr" "fr \<noteq> []"
    by (auto simp: frameSignal_def)
  from fr(2) have "list_all (\<lambda>f. length f = frameLength) fr"
    unfolding list_all_iff by auto
  with fr show ?thesis by (cases fr) auto
qed

lemma frameSignal_diverges:
  "frameStep = 0 \<Longrightarrow> frameLength \<le> length signal \<Longrightarrow>
     frameSignal signal frameLength frameStep = None"
  unfolding frameSignal_def by (rule frameSignal_loop_diverges) simp_all

lemma hammingWindow_Inr:
  "length frame \<noteq> 1 \<Longrightarrow> \<exists>w. hammingWindow frame = Inr w \<and> length w = length frame"
  by (simp add: hammingWindow_def Let_def)

lemma computePowerSpectrum_odd:
  "odd (length frame) \<Longrightarrow> computePowerSpectrum frame = Inl (Thrown RangeError)"
  by (simp add: computePowerSpectrum_def Let_def)

lemma computePowerSpectrum_even:
  assumes "even (length frame)"
  shows "\<exists>sp. computePowerSpectrum frame = Inr sp \<and> length sp = length frame div 2
           \<and> list_all (\<lambda>p. 0 \<le> p) sp"
  using assms
  by (auto simp: computePowerSpectrum_def Let_def list_all_iff split: prod.splits)

text \<open>The logarithm of \<^verbatim>\<open>applyMelFilterBank\<close> is always of a positive number: the power
  values and the weights are not negative, and the slots read are never holes.\<close>

lemma filter_inv_js_store:
  "filter_inv n f \<Longrightarrow> 0 \<le> v \<Longrightarrow> filter_inv n (js_store f j v)"
  by (auto simp: filter_inv_def js_store_def nth_list_update nth_append)

lemma filter_inv_fold:
  assumes "filter_inv n f" "\<And>j. j \<in> set js \<Longrightarrow> 0 \<le> g j"
  shows "filter_inv n (fold (\<lambda>j f. js_store f j (g j)) js f)"
  using assms by (induction js arbitrary: f) (auto intro: filter_inv_js_store)

lemma filter_inv_mel_filter: "filter_inv fftSize (mel_filter bins fftSize i)"
  unfolding mel_filter_def Let_def
  by (intro filter_inv_fold) (auto simp: filter_inv_def)

lemma mel_sum_Inr:
  assumes "filter_inv (length ps) f" "list_all (\<lambda>p. 0 \<le> p) ps" "m \<le> length ps"
  shows "\<exists>s. fold (\<lambda>j acc. and_then acc (\<lambda>s.
                case Some f of
                  None \<Rightarrow> Inl (Thrown TypeError)
                | Some f \<Rightarrow> (case js_index f j of
                               None \<Rightarrow> Inl NonFinite
                             | Some w \<Rightarrow> Inr (s + ps ! j * w))))
          [0..<m] (Inr 0) = Inr s \<and> 0 \<le> s"
  using assms(3)
proof (induction m)
  case 0
  then show ?case by simp
next
  case (Suc m)
  then obtain s where s: "fold (\<lambda>j acc. and_then acc (\<lambda>s.
                case Some f of
                  None \<Rightarrow> Inl (Thrown TypeError)
                | Some f \<Rightarrow> (case js_index f j of
                               None \<Rightarrow> Inl NonFinite
                             | Some w \<Rightarrow> Inr (s + ps ! j * w))))
          [0..<m] (Inr 0) = Inr s" "0 \<le> s" by auto
  from Suc.prems assms(1) have mf: "m < length f" "m < length ps"
    by (auto simp: filter_inv_def)
  with assms(1) obtain w where w: "f ! m = Some w" "0 \<le> w"
    unfolding filter_inv_def by blast
  from Suc.prems assms(2) have "0 \<le> ps ! m" by (simp add: list_all_length)
  with s w mf show ?case by (simp add: and_then_def js_index_def)
qed

lemma mel_energy_Inr:
  assumes "filter_inv (length ps) f" "list_all (\<lambda>p. 0 \<le> p) ps"
  shows "\<exists>e. mel_energy ps (Some f) = Inr e"
proof -
  from mel_sum_Inr[OF assms order_refl] obtain s where
    "fold (\<lambda>j acc. and_then acc (\<lambda>s.
                case Some f of
                  None \<Rightarrow> Inl (Thrown TypeError)
                | Some f \<Rightarrow> (case js_index f j of
                               None \<Rightarrow> Inl NonFinite
                             | Some w \<Rightarrow> Inr (s + ps ! j * w))))
          [0..<length ps] (Inr 0) = Inr s" "0 \<le> s" by blast
  then show ?thesis
    unfolding mel_energy_def by (simp add: and_then_def)
qed

lemma length_createMelFilterBank [simp]:
  "length (createMelFilterBank numFilters fftSize sampleRate) = numFilters"
  by (simp add: createMelFilterBank_def Let_def)

lemma applyMelFilterBank_Inr:
  assumes "list_all (\<lambda>p. 0 \<le> p) ps"
  shows "\<exists>m. applyMelFilterBank ps sampleRate = Inr m \<and> length m = 26"
proof -
  have "\<exists>ys. map_result (\<lambda>i. mel_energy ps
          (if i < length (createMelFilterBank 26 (length ps) sampleRate)
           then Some (createMelFilterBank 26 (length ps) sampleRate ! i) else None)) [0..<26] = Inr ys
        \<and> length ys = length [0..<(26::nat)] \<and> list_all (\<lambda>_. True) ys"
  proof (rule map_result_Inr)
    fix i :: nat assume "i \<in> set [0..<26]"
    then have i: "i < 26" by simp
    then have "createMelFilterBank 26 (length ps) sampleRate ! i
        = mel_filter (mel_bins 26 (length ps) sampleRate) (length ps) (Suc i)"
      by (simp add: createMelFilterBank_def Let_def nth_map_upt del: upt_Suc)
    with i mel_energy_Inr[OF filter_inv_mel_filter assms]
    show "\<exists>y. mel_energy ps
          (if i < length (createMelFilterBank 26 (length ps) sampleRate)
           then Some (createMelFilterBank 26 (length ps) sampleRate ! i) else None) = Inr y \<and> True"
      by simp
  qed
  then show ?thesis unfolding applyMelFilterBank_def Let_def by auto
qed

lemma length_computeDCT [simp]: "length (computeDCT mel) = 13"
  by (simp add: computeDCT_def Let_def)

lemma add_features_Inr:
  assumes "list_all (\<lambda>f. length f = k) fs" "length avg = k"
  shows "\<exists>v. fold (\<lambda>feature acc. and_then acc (\<lambda>avg. add_feature k avg feature)) fs (Inr avg)
            = Inr v \<and> length v = k"
  using assms
proof (induction fs arbitrary: avg)
  case Nil
  then show ?case by simp
next
  case (Cons f fs)
  have "add_feature k avg f = Inr (map (\<lambda>i. avg ! i + f ! i) [0..<k])"
    using Cons.prems by (simp add: add_feature_def)
  with Cons.IH[of "map (\<lambda>i. avg ! i + f ! i) [0..<k]"] Cons.prems
  show ?case by (simp add: and_then_def)
qed

lemma averageFeatures_Inr:
  assumes "features \<noteq> []" "list_all (\<lambda>f. length f = k) features"
  shows "\<exists>v. averageFeatures features = Inr v \<and> length v = k"
proof -
  from assms obtain first rest where fr: "features = first # rest" "length first = k"
    by (cases features) auto
  from add_features_Inr[OF assms(2), of "replicate k 0"] obtain v where
    "fold (\<lambda>feature acc. and_then acc (\<lambda>avg. add_feature k avg feature)) features
       (Inr (replicate k 0)) = Inr v" "length v = k" by auto
  with fr show ?thesis
    by (simp add: averageFeatures_def Let_def and_then_def)
qed

lemma averageFeatures_Nil: "averageFeatures [] = Inl (Thrown TypeError)"
  by (simp add: averageFeatures_def)

section \<open>The Mel filter bank\<close>

text \<open>\<^verbatim>\<open>Math.floor\<close> in \<^verbatim>\<open>createMelFilterBank\<close> is of a number that is not negative, so a
  bin is an index. (At a sample rate of 0 the quotient is \<^verbatim>\<open>NaN\<close> in JavaScript and 0 here;
  both leave every loop over bins empty.)\<close>

text \<open>The last of the \<open>numFilters + 2\<close> boundary bins is \<open>(fftSize + 1) div 2\<close>, no bin lies
  above it, and every filter has the weight 0 from there on: \<^verbatim>\<open>applyMelFilterBank\<close> passes
  the length of the power spectrum as \<^verbatim>\<open>fftSize\<close>, so the bank covers the lower half of the
  spectrum only.\<close>

lemma hzToMel_0 [simp]: "hzToMel 0 = 0"
  by (simp add: hzToMel_def)

lemma hzToMel_nonneg: "0 \<le> hz \<Longrightarrow> 0 \<le> hzToMel hz"
  by (simp add: hzToMel_def zero_le_log_cancel_iff)

lemma melToHz_nonneg: "0 \<le> mel \<Longrightarrow> 0 \<le> melToHz mel"
  by (simp add: melToHz_def ge_one_powr_ge_zero)

lemma mel_bin_nonneg:
  "0 \<le> (real fftSize + 1)
         * melToHz (hzToMel 0 + (hzToMel (real sampleRate / 2) - hzToMel 0) * real i
                      / (real numFilters + 1))
         / real sampleRate"
  by (intro divide_nonneg_nonneg mult_nonneg_nonneg melToHz_nonneg)
     (simp_all add: hzToMel_nonneg)

lemma melToHz_hzToMel: "0 \<le> hz \<Longrightarrow> melToHz (hzToMel hz) = hz"
  by (simp add: melToHz_def hzToMel_def add_pos_nonneg)

lemma melToHz_mono: "m \<le> m' \<Longrightarrow> melToHz m \<le> melToHz m'"
  by (simp add: melToHz_def)

lemma length_mel_bins [simp]: "length (mel_bins numFilters fftSize sampleRate) = numFilters + 2"
  by (simp add: mel_bins_def Let_def)

lemma mel_bins_nth:
  assumes "i < numFilters + 2"
  shows "mel_bins numFilters fftSize sampleRate ! i =
           nat \<lfloor>(real fftSize + 1)
                 * melToHz (hzToMel (real sampleRate / 2) * real i / (real numFilters + 1))
                 / real sampleRate\<rfloor>"
  using assms by (simp add: mel_bins_def Let_def nth_map_upt del: upt_Suc)

lemma mel_bins_bottom: "mel_bins numFilters fftSize sampleRate ! 0 = 0"
  by (simp add: mel_bins_nth melToHz_def)

text \<open>The last of the \<open>numFilters + 2\<close> boundary bins is \<open>(fftSize + 1) div 2\<close>, no bin lies
  above it, and every filter has the weight 0 from there on: \<^verbatim>\<open>applyMelFilterBank\<close> passes
  the length of the power spectrum as \<^verbatim>\<open>fftSize\<close>, so the bank covers the lower half of the
  spectrum only.\<close>

lemma mel_bins_top:
  assumes "0 < sampleRate"
  shows "mel_bins numFilters fftSize sampleRate ! (numFilters + 1) = (fftSize + 1) div 2"
proof -
  have "hzToMel (real sampleRate / 2) * real (numFilters + 1) / (real numFilters + 1)
          = hzToMel (real sampleRate / 2)"
    by (simp add: add.commute)
  then have "mel_bins numFilters fftSize sampleRate ! (numFilters + 1)
          = nat \<lfloor>(real fftSize + 1) * (real sampleRate / 2) / real sampleRate\<rfloor>"
    by (simp add: mel_bins_nth melToHz_hzToMel del: of_nat_add of_nat_Suc)
  also have "(real fftSize + 1) * (real sampleRate / 2) / real sampleRate
          = real (fftSize + 1) / real 2"
    using assms by simp
  also have "nat \<lfloor>real (fftSize + 1) / real 2\<rfloor> = (fftSize + 1) div 2"
    by (simp only: floor_divide_of_nat_eq nat_int)
  finally show ?thesis .
qed

lemma mel_bins_le_top:
  assumes "i < numFilters + 2"
  shows "mel_bins numFilters fftSize sampleRate ! i \<le> (fftSize + 1) div 2"
proof (cases "0 < sampleRate")
  case False
  with assms show ?thesis by (simp add: mel_bins_nth)
next
  case True
  let ?high = "hzToMel (real sampleRate / 2)"
  have high: "0 \<le> ?high" by (simp add: hzToMel_nonneg)
  have "real i / (real numFilters + 1) \<le> 1"
    using assms by simp
  then have "?high * (real i / (real numFilters + 1)) \<le> ?high * 1"
    using high by (intro mult_left_mono)
  then have "melToHz (?high * real i / (real numFilters + 1)) \<le> melToHz ?high"
    by (intro melToHz_mono) simp
  also have "\<dots> = real sampleRate / 2" by (simp add: melToHz_hzToMel)
  finally have "(real fftSize + 1) * melToHz (?high * real i / (real numFilters + 1))
                  / real sampleRate
              \<le> (real fftSize + 1) * (real sampleRate / 2) / real sampleRate"
    by (intro divide_right_mono mult_left_mono) simp_all
  also have "\<dots> = real (fftSize + 1) / real 2" using True by simp
  finally have "nat \<lfloor>(real fftSize + 1) * melToHz (?high * real i / (real numFilters + 1))
                  / real sampleRate\<rfloor> \<le> nat \<lfloor>real (fftSize + 1) / real 2\<rfloor>"
    by (intro nat_mono floor_mono)
  also have "nat \<lfloor>real (fftSize + 1) / real 2\<rfloor> = (fftSize + 1) div 2"
    by (simp only: floor_divide_of_nat_eq nat_int)
  finally show ?thesis using assms by (simp add: mel_bins_nth)
qed

lemma js_store_other:
  "k < j \<Longrightarrow> j < length f \<Longrightarrow> js_store f k v ! j = f ! j \<and> length (js_store f k v) = length f"
  by (simp add: js_store_def)

lemma fold_js_store_other:
  assumes "\<And>k. k \<in> set ks \<Longrightarrow> k < j" "j < length f"
  shows "fold (\<lambda>k f. js_store f k (g k)) ks f ! j = f ! j
         \<and> length (fold (\<lambda>k f. js_store f k (g k)) ks f) = length f"
  using assms
proof (induction ks arbitrary: f)
  case Nil
  then show ?case by simp
next
  case (Cons k ks)
  then have "k < j" by simp
  from js_store_other[OF this Cons.prems(2), of "g k"] Cons.IH[of "js_store f k (g k)"] Cons.prems
  show ?case by simp
qed

lemma mel_filter_above_top:
  assumes "bins ! i \<le> j" "bins ! (i + 1) \<le> j" "j < fftSize"
  shows "mel_filter bins fftSize i ! j = Some 0"
proof -
  let ?rising = "fold (\<lambda>j f. js_store f j
                      ((real j - real (bins ! (i - 1))) / (real (bins ! i) - real (bins ! (i - 1)))))
                    [bins ! (i - 1)..<bins ! i] (replicate fftSize (Some 0))"
  have r: "?rising ! j = Some 0 \<and> length ?rising = fftSize"
    using fold_js_store_other[of "[bins ! (i - 1)..<bins ! i]" j "replicate fftSize (Some 0)"] assms
    by simp
  then have "j < length ?rising" using assms(3) by simp
  from fold_js_store_other[of "[bins ! i..<bins ! (i + 1)]" j ?rising, OF _ this] assms(2) r
  show ?thesis by (simp add: mel_filter_def Let_def)
qed

lemma createMelFilterBank_upper_half:
  assumes "i < numFilters" "(fftSize + 1) div 2 \<le> j" "j < fftSize"
  shows "js_index (createMelFilterBank numFilters fftSize sampleRate ! i) j = Some 0"
proof -
  let ?bins = "mel_bins numFilters fftSize sampleRate"
  have f: "createMelFilterBank numFilters fftSize sampleRate ! i
             = mel_filter ?bins fftSize (Suc i)"
    using assms(1) by (simp add: createMelFilterBank_def Let_def nth_map_upt del: upt_Suc)
  have "?bins ! Suc i \<le> j" "?bins ! (Suc i + 1) \<le> j"
    using mel_bins_le_top[of "Suc i" numFilters fftSize sampleRate]
      mel_bins_le_top[of "Suc i + 1" numFilters fftSize sampleRate] assms(1,2)
    by simp_all
  from mel_filter_above_top[OF this assms(3)] filter_inv_mel_filter[of fftSize ?bins "Suc i"] assms(3)
  show ?thesis by (simp add: f js_index_def filter_inv_def)
qed

text \<open>C4. At 48000 Hz a frame has 1200 samples and its power spectrum 600 values, the last
  at index 599. \<^verbatim>\<open>createMelFilterBank(26, 600, 48000)\<close> builds 26 filters from 28 boundary
  bins that start at bin 0, but the last boundary bin is 300, not 599, and the topmost
  filter has the weight 0 at index 599.\<close>

theorem createMelFilterBank_stops_at_half:
  "frameLength_of 48000 = 1200
   \<and> (\<exists>spectrum. computePowerSpectrum (replicate 1200 0) = Inr spectrum
         \<and> length spectrum = 600)
   \<and> length (createMelFilterBank 26 600 48000) = 26
   \<and> length (mel_bins 26 600 48000) = 28
   \<and> mel_bins 26 600 48000 ! 0 = 0
   \<and> mel_bins 26 600 48000 ! 27 = 300
   \<and> js_index (createMelFilterBank 26 600 48000 ! 25) 599 = Some 0"
proof -
  have "frameLength_of 48000 = 1200"
    by (simp add: frameLength_of_def)
  moreover have "\<exists>spectrum. computePowerSpectrum (replicate 1200 0) = Inr spectrum
         \<and> length spectrum = 600"
    using computePowerSpectrum_even[of "replicate 1200 0"] by auto
  moreover have "mel_bins 26 600 48000 ! 27 = 300"
    using mel_bins_top[of 48000 26 600] by simp
  moreover have "js_index (createMelFilterBank 26 600 48000 ! 25) 599 = Some 0"
    by (rule createMelFilterBank_upper_half) simp_all
  ultimately show ?thesis
    by (simp add: mel_bins_bottom)
qed

section \<open>The four ways \<^verbatim>\<open>extractMFCC\<close> can end\<close>

text \<open>No frame: a \<^verbatim>\<open>TypeError\<close>. A frame and a step of zero samples (a sample rate below
  100 Hz): the loop of \<^verbatim>\<open>frameSignal\<close> never ends. A frame of an odd number of samples: a
  \<^verbatim>\<open>RangeError\<close>. A frame of an even number of samples: 13 coefficients. It never leaves
  the reals.\<close>

lemma length_normalizeAudio [simp]: "length (normalizeAudio a) = length a"
  by (cases a) (simp_all add: normalizeAudio_def)

lemma length_preEmphasis [simp]: "length (preEmphasis s) = length s"
  by (simp add: preEmphasis_def)

lemma frameStep_pos_iff: "0 < frameStep_of sr \<longleftrightarrow> 100 \<le> sr"
  unfolding frameStep_of_def by (auto simp: zero_less_nat_eq)

lemma frameLength_ge2: "0 < frameStep_of sr \<Longrightarrow> 2 \<le> frameLength_of sr"
  unfolding frameStep_pos_iff frameLength_of_def by (simp add: le_nat_iff le_floor_iff)

lemma extractMFCC_no_frames:
  "length audioData < frameLength_of sampleRate \<Longrightarrow>
     extractMFCC audioData sampleRate = Some (Inl (Thrown TypeError))"
  by (simp add: extractMFCC_def Let_def frameSignal_none and_then_def averageFeatures_Nil)

lemma extractMFCC_diverges:
  "frameStep_of sampleRate = 0 \<Longrightarrow> frameLength_of sampleRate \<le> length audioData \<Longrightarrow>
     extractMFCC audioData sampleRate = None"
  by (simp add: extractMFCC_def Let_def frameSignal_diverges)

lemma extractMFCC_odd:
  assumes "0 < frameStep_of sampleRate" "odd (frameLength_of sampleRate)"
    "frameLength_of sampleRate \<le> length audioData"
  shows "extractMFCC audioData sampleRate = Some (Inl (Thrown RangeError))"
proof -
  from frameSignal_some[OF assms(1), of "frameLength_of sampleRate"
      "preEmphasis (normalizeAudio audioData)"] assms(3)
  obtain f fr where fr: "frameSignal (preEmphasis (normalizeAudio audioData))
      (frameLength_of sampleRate) (frameStep_of sampleRate) = Some (f # fr)"
    "length f = frameLength_of sampleRate" by auto
  with frameLength_ge2[OF assms(1)] have "length f \<noteq> 1" by simp
  from hammingWindow_Inr[OF this] obtain w where w: "hammingWindow f = Inr w"
    "length w = length f" by blast
  with fr assms(2) have "computePowerSpectrum w = Inl (Thrown RangeError)"
    by (simp add: computePowerSpectrum_odd)
  with fr w show ?thesis
    by (simp add: extractMFCC_def Let_def and_then_def)
qed

lemma extractMFCC_even:
  assumes "0 < frameStep_of sampleRate" "even (frameLength_of sampleRate)"
    "frameLength_of sampleRate \<le> length audioData"
  shows "\<exists>mfcc. extractMFCC audioData sampleRate = Some (Inr mfcc) \<and> length mfcc = 13"
proof -
  from frameSignal_some[OF assms(1), of "frameLength_of sampleRate"
      "preEmphasis (normalizeAudio audioData)"] assms(3)
  obtain f fr where fr: "frameSignal (preEmphasis (normalizeAudio audioData))
      (frameLength_of sampleRate) (frameStep_of sampleRate) = Some (f # fr)"
    "list_all (\<lambda>f. length f = frameLength_of sampleRate) (f # fr)" by auto
  have "\<exists>sps. map_result (\<lambda>frame. and_then (hammingWindow frame) computePowerSpectrum) (f # fr)
           = Inr sps \<and> length sps = length (f # fr)
           \<and> list_all (list_all (\<lambda>p. 0 \<le> p)) sps"
  proof (rule map_result_Inr)
    fix x assume "x \<in> set (f # fr)"
    with fr(2) have len: "length x = frameLength_of sampleRate"
      by (auto simp: list_all_iff)
    with frameLength_ge2[OF assms(1)] have "length x \<noteq> 1" by simp
    from hammingWindow_Inr[OF this] obtain w where w: "hammingWindow x = Inr w"
      "length w = length x" by blast
    with len assms(2) have "even (length w)" by simp
    from computePowerSpectrum_even[OF this] w
    show "\<exists>y. and_then (hammingWindow x) computePowerSpectrum = Inr y \<and> list_all (\<lambda>p. 0 \<le> p) y"
      by (auto simp: and_then_def)
  qed
  then obtain sps where sps: "map_result (\<lambda>frame. and_then (hammingWindow frame) computePowerSpectrum)
       (f # fr) = Inr sps" "length sps = length (f # fr)" "list_all (list_all (\<lambda>p. 0 \<le> p)) sps"
    by blast
  have "\<exists>mels. map_result (\<lambda>spectrum. applyMelFilterBank spectrum sampleRate) sps = Inr mels
          \<and> length mels = length sps \<and> list_all (\<lambda>m. length m = 26) mels"
  proof (rule map_result_Inr)
    fix x assume "x \<in> set sps"
    with sps(3) have "list_all (\<lambda>p. 0 \<le> p) x" by (simp add: list_all_iff)
    from applyMelFilterBank_Inr[OF this]
    show "\<exists>y. applyMelFilterBank x sampleRate = Inr y \<and> length y = 26" .
  qed
  then obtain mels where mels: "map_result (\<lambda>spectrum. applyMelFilterBank spectrum sampleRate) sps
      = Inr mels" "length mels = length sps" by blast
  with sps(2) have "map computeDCT mels \<noteq> []" by auto
  moreover have "list_all (\<lambda>f. length f = 13) (map computeDCT mels)"
    by (simp add: list_all_iff)
  ultimately obtain v where "averageFeatures (map computeDCT mels) = Inr v" "length v = 13"
    using averageFeatures_Inr by blast
  with fr(1) sps(1) mels(1) show ?thesis
    by (simp add: extractMFCC_def Let_def and_then_def)
qed

lemma extractMFCC_finite: "extractMFCC audioData sampleRate \<noteq> Some (Inl NonFinite)"
proof (cases "length audioData < frameLength_of sampleRate")
  case True
  then show ?thesis by (simp add: extractMFCC_no_frames)
next
  case False
  then have le: "frameLength_of sampleRate \<le> length audioData" by simp
  show ?thesis
  proof (cases "frameStep_of sampleRate = 0")
    case True
    with le show ?thesis by (simp add: extractMFCC_diverges)
  next
    case False
    then have pos: "0 < frameStep_of sampleRate" by simp
    show ?thesis
    proof (cases "even (frameLength_of sampleRate)")
      case True
      from extractMFCC_even[OF pos True le] show ?thesis by auto
    next
      case False
      from extractMFCC_odd[OF pos False le] show ?thesis by simp
    qed
  qed
qed

lemma frame_sizes_8000: "frameLength_of 8000 = 200" "frameStep_of 8000 = 80"
  by (simp_all add: frameLength_of_def frameStep_of_def)

lemma frame_sizes_22050: "frameLength_of 22050 = 551" "frameStep_of 22050 = 220"
  by (simp_all add: frameLength_of_def frameStep_of_def)

lemma extractMFCC_silence_8000:
  "\<exists>mfcc. extractMFCC (replicate 200 0) 8000 = Some (Inr mfcc) \<and> length mfcc = 13"
  by (rule extractMFCC_even) (simp_all add: frame_sizes_8000)

lemma succeeds_silence_8000: "succeeds silence_8000"
  using extractMFCC_silence_8000 by (auto simp: succeeds_def silence_8000_def)

text \<open>Silence. At a sample rate of at least 100 Hz with an even frame length, an all-zero
  signal of at least one frame gives the 13 cosine sums of the constant log energy
  \<open>ln 1e-8\<close>: the epsilon of \<^verbatim>\<open>normalizeAudio\<close> keeps the division away from \<^verbatim>\<open>0/0\<close>, and
  the epsilon of \<^verbatim>\<open>applyMelFilterBank\<close> keeps the logarithm away from 0.\<close>

lemma normalizeAudio_silence: "normalizeAudio (replicate n 0) = replicate n 0"
  by (cases n) (simp_all add: normalizeAudio_def)

lemma preEmphasis_silence: "preEmphasis (replicate n 0) = replicate n 0"
  by (rule nth_equalityI) (simp_all add: preEmphasis_def)

lemma frameSignal_silence:
  assumes "0 < frameStep" "frameLength \<le> n"
  shows "\<exists>m. 0 < m \<and> frameSignal (replicate n 0) frameLength frameStep
           = Some (replicate m (replicate frameLength 0))"
proof -
  from frameSignal_some[OF assms(1), of frameLength "replicate n 0"] assms(2)
  obtain f fr where some: "frameSignal (replicate n 0) frameLength frameStep = Some (f # fr)"
    and taken: "list_all (\<lambda>f. \<exists>k. k + frameLength \<le> length (replicate n (0::real))
                  \<and> f = take frameLength (drop k (replicate n 0))) (f # fr)"
    by auto
  from taken have "\<forall>g\<in>set (f # fr). g = replicate frameLength 0"
    unfolding list_all_iff by (auto simp: min_def)
  then have "f # fr = replicate (length (f # fr)) (replicate frameLength 0)"
    by (intro replicate_eqI) auto
  with some show ?thesis by (intro exI[of _ "length (f # fr)"]) simp
qed

lemma hammingWindow_silence:
  "N \<noteq> 1 \<Longrightarrow> hammingWindow (replicate N 0) = Inr (replicate N 0)"
  by (auto simp: hammingWindow_def Let_def intro!: nth_equalityI)

lemma dft_bin_zero:
  assumes "\<And>n. n \<in> set ns \<Longrightarrow> frame ! n = 0"
  shows "fold (\<lambda>n (re, im).
             let angle = - 2 * pi * real k * real n / real (length frame)
             in (re + frame ! n * cos angle, im + frame ! n * sin angle)) ns (re0, im0)
         = (re0, im0)"
  using assms by (induction ns) (simp_all add: Let_def)

lemma computePowerSpectrum_silence:
  assumes "even N"
  shows "computePowerSpectrum (replicate N 0) = Inr (replicate (N div 2) 0)"
proof -
  have "dft_bin (replicate N 0) k = (0, 0)" for k
    unfolding dft_bin_def by (rule dft_bin_zero) simp
  with assms show ?thesis
    by (auto simp: computePowerSpectrum_def Let_def intro!: nth_equalityI)
qed

lemma mel_sum_silence:
  assumes "filter_inv n f" "m \<le> n"
  shows "fold (\<lambda>j acc. and_then acc (\<lambda>s.
                case Some f of
                  None \<Rightarrow> Inl (Thrown TypeError)
                | Some f \<Rightarrow> (case js_index f j of
                               None \<Rightarrow> Inl NonFinite
                             | Some w \<Rightarrow> Inr (s + replicate n 0 ! j * w))))
          [0..<m] (Inr 0) = Inr 0"
  using assms(2)
proof (induction m)
  case 0
  then show ?case by simp
next
  case (Suc m)
  from Suc.prems assms(1) have mf: "m < length f" "m < n"
    by (auto simp: filter_inv_def)
  with assms(1) obtain w where w: "f ! m = Some w"
    unfolding filter_inv_def by blast
  from Suc mf w show ?case by (simp add: and_then_def js_index_def)
qed

lemma mel_energy_silence:
  assumes "filter_inv n f"
  shows "mel_energy (replicate n 0) (Some f) = Inr (ln (1 / 10 ^ 8))"
  using mel_sum_silence[OF assms order_refl]
  by (simp add: mel_energy_def and_then_def)

lemma map_result_map:
  assumes "\<And>x. x \<in> set xs \<Longrightarrow> f x = Inr (g x)"
  shows "map_result f xs = Inr (map g xs)"
  using assms by (induction xs) simp_all

lemma applyMelFilterBank_silence:
  "applyMelFilterBank (replicate n 0) sampleRate = Inr (replicate 26 (ln (1 / 10 ^ 8)))"
proof -
  have "map_result (\<lambda>i. mel_energy (replicate n 0)
          (if i < length (createMelFilterBank 26 n sampleRate)
           then Some (createMelFilterBank 26 n sampleRate ! i) else None)) [0..<26]
        = Inr (map (\<lambda>i. ln (1 / 10 ^ 8)) [0..<26])"
  proof (rule map_result_map)
    fix i :: nat assume "i \<in> set [0..<26]"
    then have i: "i < 26" by simp
    then have "createMelFilterBank 26 n sampleRate ! i
        = mel_filter (mel_bins 26 n sampleRate) n (Suc i)"
      by (simp add: createMelFilterBank_def Let_def nth_map_upt del: upt_Suc)
    with i mel_energy_silence[OF filter_inv_mel_filter]
    show "mel_energy (replicate n 0)
          (if i < length (createMelFilterBank 26 n sampleRate)
           then Some (createMelFilterBank 26 n sampleRate ! i) else None) = Inr (ln (1 / 10 ^ 8))"
      by simp
  qed
  then show ?thesis
    by (simp add: applyMelFilterBank_def Let_def map_replicate_const)
qed

lemma add_features_same:
  assumes "length x = k" "length avg = k"
  shows "fold (\<lambda>feature acc. and_then acc (\<lambda>avg. add_feature k avg feature)) (replicate m x)
           (Inr avg) = Inr (map (\<lambda>i. avg ! i + real m * x ! i) [0..<k])"
  using assms(2)
proof (induction m arbitrary: avg)
  case 0
  then show ?case by (auto intro!: nth_equalityI)
next
  case (Suc m)
  have a: "add_feature k avg x = Inr (map (\<lambda>i. avg ! i + x ! i) [0..<k])"
    using assms(1) by (simp add: add_feature_def)
  have "length (map (\<lambda>i. avg ! i + x ! i) [0..<k]) = k" by simp
  from Suc.IH[OF this] a show ?case
    by (simp add: and_then_def algebra_simps)
qed

lemma averageFeatures_Cons:
  "averageFeatures (f # fs) =
     and_then
       (fold (\<lambda>feature acc. and_then acc (\<lambda>avg. add_feature (length f) avg feature))
          (f # fs) (Inr (replicate (length f) 0)))
       (\<lambda>avg. Inr (map (\<lambda>x. x / real (length (f # fs))) avg))"
  by (simp add: averageFeatures_def Let_def)

lemma averageFeatures_same:
  assumes "0 < m"
  shows "averageFeatures (replicate m x) = Inr x"
proof -
  from assms obtain m' where r: "replicate m x = x # replicate m' x"
    by (cases m) auto
  let ?sum = "map (\<lambda>i. replicate (length x) 0 ! i + real m * x ! i) [0..<length x]"
  have A: "fold (\<lambda>feature acc. and_then acc (\<lambda>avg. add_feature (length x) avg feature))
          (replicate m x) (Inr (replicate (length x) 0)) = Inr ?sum"
    by (rule add_features_same) simp_all
  have B: "map (\<lambda>v. v / real m) ?sum = x"
    using assms by (intro nth_equalityI) simp_all
  have "averageFeatures (replicate m x) =
     and_then
       (fold (\<lambda>feature acc. and_then acc (\<lambda>avg. add_feature (length x) avg feature))
          (replicate m x) (Inr (replicate (length x) 0)))
       (\<lambda>avg. Inr (map (\<lambda>v. v / real (length (replicate m x))) avg))"
    unfolding r by (rule averageFeatures_Cons)
  also have "\<dots> = Inr x"
    unfolding A by (simp only: and_then_def sum.case length_replicate B)
  finally show ?thesis .
qed

lemma extractMFCC_silence:
  assumes "0 < frameStep_of sampleRate" "even (frameLength_of sampleRate)"
    "frameLength_of sampleRate \<le> n"
  shows "extractMFCC (replicate n 0) sampleRate
           = Some (Inr (computeDCT (replicate 26 (ln (1 / 10 ^ 8)))))"
proof -
  let ?N = "frameLength_of sampleRate"
  from frameSignal_silence[OF assms(1,3)] obtain m where m: "0 < m"
    "frameSignal (replicate n 0) ?N (frameStep_of sampleRate) = Some (replicate m (replicate ?N 0))"
    by blast
  from frameLength_ge2[OF assms(1)] have "?N \<noteq> 1" by simp
  then have "and_then (hammingWindow (replicate ?N 0)) computePowerSpectrum
               = Inr (replicate (?N div 2) 0)"
    by (simp add: hammingWindow_silence computePowerSpectrum_silence[OF assms(2)] and_then_def)
  then have 1: "map_result (\<lambda>frame. and_then (hammingWindow frame) computePowerSpectrum)
                  (replicate m (replicate ?N 0))
                = Inr (replicate m (replicate (?N div 2) 0))"
    by (subst map_result_map[where g = "\<lambda>_. replicate (?N div 2) 0"])
       (simp_all add: map_replicate_const)
  have 2: "map_result (\<lambda>spectrum. applyMelFilterBank spectrum sampleRate)
             (replicate m (replicate (?N div 2) 0))
           = Inr (replicate m (replicate 26 (ln (1 / 10 ^ 8))))"
    by (subst map_result_map[where g = "\<lambda>_. replicate 26 (ln (1 / 10 ^ 8))"])
       (simp_all add: map_replicate_const applyMelFilterBank_silence)
  show ?thesis
    unfolding extractMFCC_def Let_def normalizeAudio_silence preEmphasis_silence m(2)
      option.case 1
    by (simp add: 2 and_then_def averageFeatures_same[OF m(1)])
qed

text \<open>C6. When framing yields no frame (the signal is shorter than one frame of 25 ms),
  feature extraction does not return a feature vector: it ends with an exception, the
  \<^verbatim>\<open>TypeError\<close> of \<^verbatim>\<open>features[0].length\<close> in \<^verbatim>\<open>averageFeatures\<close>.\<close>

theorem extractMFCC_zero_frames_throws:
  assumes "length audioData < frameLength_of sampleRate"
  shows "frameSignal (preEmphasis (normalizeAudio audioData))
           (frameLength_of sampleRate) (frameStep_of sampleRate) = Some []
         \<and> extractMFCC audioData sampleRate = Some (Inl (Thrown TypeError))"
  using assms by (simp add: frameSignal_none extractMFCC_no_frames)

theorem extractMFCC_zero_frames_throws_witness:
  "length [0.5, - 0.25 :: real] < frameLength_of 44100
   \<and> frameSignal (preEmphasis (normalizeAudio [0.5, - 0.25]))
           (frameLength_of 44100) (frameStep_of 44100) = Some []
   \<and> extractMFCC [0.5, - 0.25] 44100 = Some (Inl (Thrown TypeError))"
proof -
  have short: "length [0.5, - 0.25 :: real] < frameLength_of 44100"
    by (simp add: frameLength_of_def)
  from short extractMFCC_zero_frames_throws[OF short] show ?thesis by blast
qed

text \<open>C8. Silence of 551 samples at 22050 Hz is one whole frame of 551 samples, an odd
  number: \<^verbatim>\<open>new Array(551 / 2)\<close> in \<^verbatim>\<open>computePowerSpectrum\<close> throws a \<^verbatim>\<open>RangeError\<close>, and
  \<^verbatim>\<open>extractMFCC\<close> returns no feature vector. (For an even frame length it returns the 13
  coefficients of lemma \<open>extractMFCC_silence\<close>.)\<close>

theorem extractMFCC_silence_odd_frame:
  "extractMFCC (replicate 551 0) 22050 = Some (Inl (Thrown RangeError))"
  by (rule extractMFCC_odd) (simp_all add: frame_sizes_22050)

section \<open>Cosine similarity\<close>










lemma cosine_unit [simp]:
  "cosineSimilarity [1] [1] = 1 / (1 + 1 / 10 ^ 8)"
  "cosineSimilarity [1] [- 1] = - 1 / (1 + 1 / 10 ^ 8)"
  by (simp_all add: cosineSimilarity_def)

subsection \<open>The same in doubles\<close>





















section \<open>Embedding\<close>

lemma extractDeepEmbedding_Inr: "\<exists>embedding. extractDeepEmbedding st mfcc = Inr embedding"
  by (auto simp: extractDeepEmbedding_def try_catch_def split: option.splits sum.splits)

lemma extractDeepEmbedding_unit_model:
  "modelLoaded st \<Longrightarrow> model st = Some unit_model \<Longrightarrow> extractDeepEmbedding st mfcc = Inr [1]"
  by (simp add: extractDeepEmbedding_def try_catch_def unit_model_def)

text \<open>C10. \<^verbatim>\<open>extractDeepEmbedding\<close> always returns an embedding, never an exception; when
  the model is not loaded, or absent, or a call inside the \<^verbatim>\<open>try\<close> block throws, what it
  returns is the feature vector it was given.\<close>

theorem extractDeepEmbedding_never_throws:
  "(\<exists>embedding. extractDeepEmbedding st mfcc = Inr embedding)
   \<and> (\<not> modelLoaded st \<longrightarrow> extractDeepEmbedding st mfcc = Inr mfcc)
   \<and> (model st = None \<longrightarrow> extractDeepEmbedding st mfcc = Inr mfcc)
   \<and> (\<forall>predict error. model st = Some predict \<longrightarrow> predict (pad128 mfcc) = Inl error
         \<longrightarrow> extractDeepEmbedding st mfcc = Inr mfcc)"
  by (auto simp: extractDeepEmbedding_def try_catch_def split: option.splits sum.splits)

theorem extractDeepEmbedding_never_throws_witness:
  "modelLoaded (loadModel new_authenticator (Some failing_model))
   \<and> model (loadModel new_authenticator (Some failing_model)) = Some failing_model
   \<and> failing_model (pad128 [1, 2, 3]) = Inl Error
   \<and> extractDeepEmbedding (loadModel new_authenticator (Some failing_model)) [1, 2, 3]
        = Inr [1, 2, 3]
   \<and> \<not> modelLoaded new_authenticator
   \<and> extractDeepEmbedding new_authenticator [1, 2, 3] = Inr [1, 2, 3]"
proof -
  let ?st = "loadModel new_authenticator (Some failing_model)"
  have m: "model ?st = Some failing_model" "modelLoaded ?st"
    by (simp_all add: loadModel_def new_authenticator_def)
  have f: "failing_model (pad128 [1, 2, 3]) = Inl Error"
    by (simp add: failing_model_def)
  have n: "\<not> modelLoaded new_authenticator"
    by (simp add: new_authenticator_def)
  from extractDeepEmbedding_never_throws[of ?st "[1, 2, 3]"] m f
  have "extractDeepEmbedding ?st [1, 2, 3] = Inr [1, 2, 3]" by blast
  moreover from extractDeepEmbedding_never_throws[of new_authenticator "[1, 2, 3]"] n
  have "extractDeepEmbedding new_authenticator [1, 2, 3] = Inr [1, 2, 3]" by blast
  ultimately show ?thesis using m f n by blast
qed

section \<open>What the handlers change\<close>

lemma loaded_unit_fields:
  "modelLoaded loaded_unit" "model loaded_unit = Some unit_model"
  "voiceEmbeddings loaded_unit = []" "recordingCount loaded_unit = 0" "isLocked loaded_unit"
  "threshold loaded_unit = 0.75" "pendingUnlocks loaded_unit = 0" "dispatched loaded_unit = []"
  by (simp_all add: loaded_unit_def loadModel_def new_authenticator_def)

lemma enrolled_opposite_fields:
  "voiceEmbeddings enrolled_opposite = [[- 1], [- 1], [- 1]]" "threshold enrolled_opposite = 0.75"
  "modelLoaded enrolled_opposite" "model enrolled_opposite = Some unit_model"
  by (simp_all add: enrolled_opposite_def loadModel_def new_authenticator_def)

lemma recordVoiceSample_stores:
  assumes "modelLoaded st" "succeeds cap"
  shows "\<exists>embedding. recordVoiceSample st cap
           = Some (st\<lparr>voiceEmbeddings := voiceEmbeddings st @ [embedding],
                       recordingCount := recordingCount st + 1\<rparr>,
                   SampleStored (2 \<le> recordingCount st))"
proof -
  from assms(2) obtain a sr mfcc where cap: "cap = Captured a sr"
    and mfcc: "extractMFCC a sr = Some (Inr mfcc)"
    by (auto simp: succeeds_def split: capture.splits option.splits sum.splits)
  from extractDeepEmbedding_Inr obtain e where "extractDeepEmbedding st mfcc = Inr e" by blast
  with assms(1) cap mfcc show ?thesis
    by (auto simp: recordVoiceSample_def recordVoiceSample_onstop_def Let_def not_less
        intro!: exI[of _ e])
qed

lemma recordVoiceSample_keeps:
  assumes "recordVoiceSample st cap = Some (st', out)"
  shows "isLocked st' = isLocked st \<and> dispatched st' = dispatched st
         \<and> pendingUnlocks st' = pendingUnlocks st"
  using assms
  by (auto simp: recordVoiceSample_def recordVoiceSample_onstop_def Let_def
      split: if_splits capture.splits option.splits sum.splits fault.splits)

lemma recordVoiceSample_threshold:
  assumes "recordVoiceSample st cap = Some (st', out)"
  shows "threshold st' = threshold st"
  using assms
  by (auto simp: recordVoiceSample_def recordVoiceSample_onstop_def Let_def
      split: if_splits capture.splits option.splits sum.splits fault.splits)

lemma recordVoiceSample_unit:
  assumes "modelLoaded st" "model st = Some unit_model"
  shows "recordVoiceSample st silence_8000
           = Some (st\<lparr>voiceEmbeddings := voiceEmbeddings st @ [[1]],
                       recordingCount := recordingCount st + 1\<rparr>,
                   SampleStored (2 \<le> recordingCount st))"
proof -
  obtain mfcc where mfcc: "extractMFCC (replicate 200 0) 8000 = Some (Inr mfcc)"
    using extractMFCC_silence_8000 by blast
  with assms extractDeepEmbedding_unit_model[OF assms, of mfcc] show ?thesis
    by (simp add: recordVoiceSample_def recordVoiceSample_onstop_def silence_8000_def Let_def
        not_less)
qed

lemma Math_max_Max: "Math_max x xs = Max (set (x # xs))"
  unfolding Math_max_def Max.set_eq_fold ..

lemma authenticateVoice_onstop_decision:
  assumes "extractMFCC audioData sampleRate = Some (Inr mfcc)"
    and "extractDeepEmbedding st mfcc = Inr embedding"
    and "decide (threshold st) (map (cosineSimilarity embedding) (voiceEmbeddings st)) = Inr v"
  shows "authenticateVoice_onstop st audioData sampleRate =
           Some (if accepted v then st\<lparr>pendingUnlocks := pendingUnlocks st + 1\<rparr> else st,
                 Decision v)"
  using assms by (simp add: authenticateVoice_onstop_def)

lemma authenticateVoice_effect:
  assumes "authenticateVoice st cap = Some (st', out)"
  shows "st' = st\<lparr>pendingUnlocks := pendingUnlocks st
                    + (case out of Decision v \<Rightarrow> if accepted v then 1 else 0 | _ \<Rightarrow> 0)\<rparr>"
  using assms
  by (auto simp: authenticateVoice_def authenticateVoice_onstop_def
      split: if_splits capture.splits option.splits sum.splits fault.splits)

lemma authenticateVoice_unit:
  assumes "modelLoaded st" "model st = Some unit_model" "threshold st = 0.75"
    "voiceEmbeddings st = [[1], [1], [1]]"
  shows "\<exists>v. accepted v \<and> authenticateVoice st silence_8000
           = Some (st\<lparr>pendingUnlocks := pendingUnlocks st + 1\<rparr>, Decision v)"
proof -
  obtain mfcc where mfcc: "extractMFCC (replicate 200 0) 8000 = Some (Inr mfcc)"
    using extractMFCC_silence_8000 by blast
  let ?c = "1 / (1 + 1 / 10 ^ 8) :: real"
  let ?v = "\<lparr>similarities = [?c, ?c, ?c], avgSimilarity = (?c + ?c + ?c) / 3,
             maxSimilarity = ?c, accepted = True\<rparr>"
  have d: "decide (threshold st) (map (cosineSimilarity [1]) (voiceEmbeddings st)) = Inr ?v"
    by (simp add: decide_def Math_max_def Let_def assms)
  from authenticateVoice_onstop_decision[OF mfcc extractDeepEmbedding_unit_model[OF assms(1,2)] d]
  have "authenticateVoice st silence_8000
           = Some (st\<lparr>pendingUnlocks := pendingUnlocks st + 1\<rparr>, Decision ?v)"
    by (simp add: authenticateVoice_def silence_8000_def assms)
  then show ?thesis by (intro exI[of _ ?v]) simp
qed

lemma step_record_unit:
  assumes "modelLoaded st" "model st = Some unit_model"
  shows "step st (RecordClick silence_8000)
           = Some (st\<lparr>voiceEmbeddings := voiceEmbeddings st @ [[1]],
                       recordingCount := recordingCount st + 1\<rparr>)"
  by (simp add: step_def recordVoiceSample_unit[OF assms])

lemma step_authenticate_unit:
  assumes "modelLoaded st" "model st = Some unit_model" "threshold st = 0.75"
    "voiceEmbeddings st = [[1], [1], [1]]"
  shows "step st (AuthenticateClick silence_8000)
           = Some (st\<lparr>pendingUnlocks := pendingUnlocks st + 1\<rparr>)"
  using authenticateVoice_unit[OF assms] by (auto simp: step_def)

lemma step_timer:
  "0 < pendingUnlocks st \<Longrightarrow>
     step st UnlockTimeout = Some (unlockSystem (st\<lparr>pendingUnlocks := pendingUnlocks st - 1\<rparr>))"
  by (simp add: step_def)

lemma step_unlock_timer:
  assumes "step st UnlockTimeout = Some st'" "0 < pendingUnlocks st"
  shows "\<not> isLocked st' \<and> pendingUnlocks st' = pendingUnlocks st - 1"
  using assms by (auto simp: step_def unlockSystem_def)

lemma step_threshold:
  assumes "step st ev = Some st'"
  shows "threshold st' = threshold st"
proof (cases ev)
  case (RecordClick cap)
  with assms obtain out where "recordVoiceSample st cap = Some (st', out)"
    by (auto simp: step_def)
  from recordVoiceSample_threshold[OF this] show ?thesis .
next
  case (AuthenticateClick cap)
  with assms obtain out where "authenticateVoice st cap = Some (st', out)"
    by (auto simp: step_def)
  from authenticateVoice_effect[OF this] show ?thesis by simp
next
  case ResetClick
  with assms show ?thesis by (auto simp: step_def resetVoiceProfile_def)
next
  case UnlockTimeout
  with assms show ?thesis by (auto simp: step_def unlockSystem_def split: if_splits)
qed

lemma step_stays_unlocked:
  assumes "\<not> isLocked st" "ev \<noteq> ResetClick" "step st ev = Some st'"
  shows "\<not> isLocked st'"
proof (cases ev)
  case (RecordClick cap)
  with assms(3) obtain out where "recordVoiceSample st cap = Some (st', out)"
    by (auto simp: step_def)
  from recordVoiceSample_keeps[OF this] assms(1) show ?thesis by simp
next
  case (AuthenticateClick cap)
  with assms(3) obtain out where "authenticateVoice st cap = Some (st', out)"
    by (auto simp: step_def)
  from authenticateVoice_effect[OF this] assms(1) show ?thesis by simp
next
  case ResetClick
  with assms(2) show ?thesis by simp
next
  case UnlockTimeout
  with assms(1,3) show ?thesis by (auto simp: step_def unlockSystem_def split: if_splits)
qed

lemma step_dispatched:
  assumes "step st ev = Some st'"
  shows "dispatched st' = dispatched st
           @ (if ev = UnlockTimeout \<and> 0 < pendingUnlocks st then [''voiceUnlocked''] else [])"
proof (cases ev)
  case (RecordClick cap)
  with assms obtain out where "recordVoiceSample st cap = Some (st', out)"
    by (auto simp: step_def)
  from recordVoiceSample_keeps[OF this] RecordClick show ?thesis by simp
next
  case (AuthenticateClick cap)
  with assms obtain out where "authenticateVoice st cap = Some (st', out)"
    by (auto simp: step_def)
  from authenticateVoice_effect[OF this] AuthenticateClick show ?thesis by simp
next
  case ResetClick
  with assms show ?thesis by (auto simp: step_def resetVoiceProfile_def)
next
  case UnlockTimeout
  with assms show ?thesis by (auto simp: step_def unlockSystem_def split: if_splits)
qed

lemma run_threshold:
  "run st evs = Some st' \<Longrightarrow> threshold st' = threshold st"
proof (induction evs arbitrary: st)
  case Nil
  then show ?case by simp
next
  case (Cons ev evs)
  then obtain st1 where "step st ev = Some st1" "run st1 evs = Some st'"
    by (auto split: option.splits)
  with Cons.IH[of st1] step_threshold[of st ev st1] show ?case by simp
qed

lemma run_stays_unlocked:
  assumes "\<not> isLocked st" "ResetClick \<notin> set evs" "run st evs = Some st'"
  shows "\<not> isLocked st'"
  using assms
proof (induction evs arbitrary: st)
  case Nil
  then show ?case by simp
next
  case (Cons ev evs)
  from Cons.prems(3) obtain st1 where st1: "step st ev = Some st1" "run st1 evs = Some st'"
    by (auto split: option.splits)
  from Cons.prems(2) have "ev \<noteq> ResetClick" "ResetClick \<notin> set evs" by auto
  from step_stays_unlocked[OF Cons.prems(1) this(1) st1(1)] Cons.IH[OF _ this(2) st1(2)]
  show ?case by blast
qed

lemma run_RecordClicks:
  assumes "modelLoaded st" "list_all succeeds caps"
  shows "\<exists>st' new. run st (map RecordClick caps) = Some st'
           \<and> length new = length caps
           \<and> voiceEmbeddings st' = voiceEmbeddings st @ new
           \<and> recordingCount st' = recordingCount st + length caps
           \<and> isLocked st' = isLocked st"
  using assms
proof (induction caps arbitrary: st)
  case Nil
  then show ?case by simp
next
  case (Cons cap caps)
  then have ok: "succeeds cap" "list_all succeeds caps" by simp_all
  from recordVoiceSample_stores[OF Cons.prems(1) ok(1)] obtain e where
    e: "recordVoiceSample st cap
           = Some (st\<lparr>voiceEmbeddings := voiceEmbeddings st @ [e],
                       recordingCount := recordingCount st + 1\<rparr>,
                   SampleStored (2 \<le> recordingCount st))" by blast
  let ?st1 = "st\<lparr>voiceEmbeddings := voiceEmbeddings st @ [e],
                 recordingCount := recordingCount st + 1\<rparr>"
  have "modelLoaded ?st1" using Cons.prems(1) by simp
  from Cons.IH[OF this ok(2)] obtain st' new where
    r: "run ?st1 (map RecordClick caps) = Some st'" "length new = length caps"
      "voiceEmbeddings st' = voiceEmbeddings ?st1 @ new"
      "recordingCount st' = recordingCount ?st1 + length caps"
      "isLocked st' = isLocked ?st1" by blast
  show ?case
  proof (intro exI[of _ st'] exI[of _ "e # new"] conjI)
    show "run st (map RecordClick (cap # caps)) = Some st'"
      using e r(1) by (simp add: step_def)
  qed (use r in simp_all)
qed

lemma threshold_constructor: "threshold (loadModel new_authenticator sequential) = 0.75"
  by (cases sequential) (simp_all add: loadModel_def new_authenticator_def)

lemma run_three_captures:
  "run (loadModel new_authenticator (Some unit_model))
     [RecordClick silence_8000, RecordClick silence_8000, RecordClick silence_8000]
     = Some enrolled_three"
  using loaded_unit_fields
  by (simp add: step_record_unit enrolled_three_def loaded_unit_def[symmetric])

section \<open>Enrollment\<close>

text \<open>C2, as the code has it. With the model loaded, every capture whose extraction succeeds
  appends exactly one embedding to the profile and adds one to the count, and leaves the
  lock flag alone; \<^verbatim>\<open>completeVoiceSetup\<close> is called from the third on. So \<open>n\<close> such captures
  in a row add \<open>n\<close> embeddings and \<open>n\<close> to the count: three from the start give a profile of
  three and the count three, and a fourth is stored like the others.\<close>

theorem enrollment_appends_each_capture:
  assumes "modelLoaded st" "list_all succeeds caps" "succeeds cap"
  shows "(\<exists>embedding. recordVoiceSample st cap
            = Some (st\<lparr>voiceEmbeddings := voiceEmbeddings st @ [embedding],
                        recordingCount := recordingCount st + 1\<rparr>,
                    SampleStored (2 \<le> recordingCount st)))
         \<and> (\<exists>st' new. run st (map RecordClick caps) = Some st'
               \<and> length new = length caps
               \<and> voiceEmbeddings st' = voiceEmbeddings st @ new
               \<and> recordingCount st' = recordingCount st + length caps
               \<and> isLocked st' = isLocked st)"
  using recordVoiceSample_stores[OF assms(1,3)] run_RecordClicks[OF assms(1,2)] by blast

theorem enrollment_appends_each_capture_witness:
  "modelLoaded loaded_unit
   \<and> list_all succeeds [silence_8000, silence_8000, silence_8000]
   \<and> succeeds silence_8000
   \<and> voiceEmbeddings loaded_unit = [] \<and> recordingCount loaded_unit = 0
   \<and> (\<exists>embedding. recordVoiceSample loaded_unit silence_8000
            = Some (loaded_unit\<lparr>voiceEmbeddings := [embedding], recordingCount := 1\<rparr>,
                    SampleStored False))
   \<and> (\<exists>st' new. run loaded_unit (map RecordClick [silence_8000, silence_8000, silence_8000])
                   = Some st'
               \<and> length new = 3 \<and> voiceEmbeddings st' = new \<and> recordingCount st' = 3
               \<and> isLocked st')"
proof -
  have l: "modelLoaded loaded_unit" by (simp add: loaded_unit_fields)
  have s3: "list_all succeeds [silence_8000, silence_8000, silence_8000]"
    by (simp add: succeeds_silence_8000)
  from enrollment_appends_each_capture[OF l s3 succeeds_silence_8000] l s3
  show ?thesis
    by (simp add: loaded_unit_fields succeeds_silence_8000 numeral_3_eq_3 del: run.simps)
qed

text \<open>C2 as stated fails: the fourth capture is no no-op. Four captures from the start
  leave four embeddings and the count four.\<close>

theorem fourth_capture_appends:
  "map_option voiceEmbeddings (run loaded_unit (replicate 4 (RecordClick silence_8000)))
     = Some [[1], [1], [1], [1]]
   \<and> map_option recordingCount (run loaded_unit (replicate 4 (RecordClick silence_8000)))
     = Some 4"
  by (simp add: numeral_eq_Suc step_record_unit loaded_unit_fields)

section \<open>Verification\<close>

text \<open>C7. A verification attempt while no embedding is enrolled ends at the guard: an alert
  and a return, before any recording, extraction or similarity, with the state as it
  was.\<close>

theorem authenticateVoice_empty_profile:
  assumes "voiceEmbeddings st = []"
  shows "authenticateVoice st cap
           = Some (st, Alert ''No voice profile found. Please record samples first.'')"
  using assms by (simp add: authenticateVoice_def)

theorem authenticateVoice_empty_profile_witness:
  "voiceEmbeddings (loadModel new_authenticator (Some unit_model)) = []
   \<and> authenticateVoice (loadModel new_authenticator (Some unit_model)) (Captured [0, 0] 48000)
       = Some (loadModel new_authenticator (Some unit_model),
               Alert ''No voice profile found. Please record samples first.'')"
proof -
  have empty: "voiceEmbeddings (loadModel new_authenticator (Some unit_model)) = []"
    by (simp add: loadModel_def new_authenticator_def)
  from empty authenticateVoice_empty_profile[OF empty] show ?thesis by blast
qed

text \<open>C1. In a state reached from the constructor (so with the threshold 0.75) and with a
  profile that is not empty, a verification attempt whose extraction succeeds ends in a
  decision: the scores are the cosine similarities of the candidate with each enrolled
  embedding, the decision score is their maximum, and the attempt is accepted exactly when
  the maximum is above 0.75. For the scores 0.40, 0.81, 0.60 the decision score is 0.81 and
  the verdict is accept (their average, about 0.603, is below the threshold).\<close>

theorem authenticateVoice_max_decides:
  assumes "run (loadModel new_authenticator sequential) evs = Some st"
    and "voiceEmbeddings st \<noteq> []"
    and "extractMFCC audioData sampleRate = Some (Inr mfcc)"
  shows "(\<exists>embedding st' v.
            extractDeepEmbedding st mfcc = Inr embedding
            \<and> authenticateVoice st (Captured audioData sampleRate) = Some (st', Decision v)
            \<and> similarities v = map (cosineSimilarity embedding) (voiceEmbeddings st)
            \<and> maxSimilarity v = Max (set (similarities v))
            \<and> accepted v = (0.75 < maxSimilarity v))
         \<and> decide 0.75 [0.40, 0.81, 0.60]
             = Inr \<lparr>similarities = [0.40, 0.81, 0.60], avgSimilarity = 1.81 / 3,
                    maxSimilarity = 0.81, accepted = True\<rparr>"
proof -
  have thr: "threshold st = 0.75"
    using run_threshold[OF assms(1)] by (simp add: threshold_constructor)
  obtain embedding where emb: "extractDeepEmbedding st mfcc = Inr embedding"
    using extractDeepEmbedding_Inr by blast
  from assms(2) obtain s ss where sims:
    "map (cosineSimilarity embedding) (voiceEmbeddings st) = s # ss"
    by (cases "voiceEmbeddings st") auto
  let ?v = "\<lparr>similarities = s # ss, avgSimilarity = foldl (+) s ss / real (length (s # ss)),
             maxSimilarity = Math_max s ss, accepted = (Math_max s ss > threshold st)\<rparr>"
  have d: "decide (threshold st) (map (cosineSimilarity embedding) (voiceEmbeddings st)) = Inr ?v"
    by (simp add: decide_def sims Let_def)
  from authenticateVoice_onstop_decision[OF assms(3) emb d] assms(2)
  have "authenticateVoice st (Captured audioData sampleRate)
          = Some (if accepted ?v then st\<lparr>pendingUnlocks := pendingUnlocks st + 1\<rparr> else st,
                  Decision ?v)"
    by (simp add: authenticateVoice_def)
  moreover have "similarities ?v = map (cosineSimilarity embedding) (voiceEmbeddings st)"
    by (simp add: sims)
  moreover have "maxSimilarity ?v = Max (set (similarities ?v))"
    by (simp add: Math_max_Max)
  moreover have "accepted ?v = (0.75 < maxSimilarity ?v)"
    by (simp add: thr)
  moreover have "decide 0.75 [0.40, 0.81, 0.60]
             = Inr \<lparr>similarities = [0.40, 0.81, 0.60], avgSimilarity = 1.81 / 3,
                    maxSimilarity = 0.81, accepted = True\<rparr>"
    by (simp add: decide_def Math_max_def Let_def)
  ultimately show ?thesis using emb by blast
qed

theorem authenticateVoice_max_decides_witness:
  "run (loadModel new_authenticator (Some unit_model))
     [RecordClick silence_8000, RecordClick silence_8000, RecordClick silence_8000]
     = Some enrolled_three
   \<and> voiceEmbeddings enrolled_three \<noteq> []
   \<and> (\<exists>mfcc. extractMFCC (replicate 200 0) 8000 = Some (Inr mfcc)
         \<and> extractDeepEmbedding enrolled_three mfcc = Inr [1])
   \<and> (\<exists>st' v. authenticateVoice enrolled_three (Captured (replicate 200 0) 8000)
                  = Some (st', Decision v)
         \<and> similarities v = [1 / (1 + 1 / 10 ^ 8), 1 / (1 + 1 / 10 ^ 8), 1 / (1 + 1 / 10 ^ 8)]
         \<and> maxSimilarity v = Max (set (similarities v))
         \<and> accepted v = (0.75 < maxSimilarity v))"
proof -
  obtain mfcc where mfcc: "extractMFCC (replicate 200 0) 8000 = Some (Inr mfcc)"
    using extractMFCC_silence_8000 by blast
  have f: "voiceEmbeddings enrolled_three = [[1], [1], [1]]" "modelLoaded enrolled_three"
    "model enrolled_three = Some unit_model"
    by (simp_all add: enrolled_three_def loaded_unit_fields)
  have ne: "voiceEmbeddings enrolled_three \<noteq> []" by (simp add: f)
  have emb: "extractDeepEmbedding enrolled_three mfcc = Inr [1]"
    by (simp add: extractDeepEmbedding_unit_model f)
  from authenticateVoice_max_decides[OF run_three_captures ne mfcc] emb
  have "\<exists>st' v. authenticateVoice enrolled_three (Captured (replicate 200 0) 8000)
                  = Some (st', Decision v)
         \<and> similarities v = [1 / (1 + 1 / 10 ^ 8), 1 / (1 + 1 / 10 ^ 8), 1 / (1 + 1 / 10 ^ 8)]
         \<and> maxSimilarity v = Max (set (similarities v))
         \<and> accepted v = (0.75 < maxSimilarity v)"
    by (auto simp: f)
  with run_three_captures ne mfcc emb show ?thesis by blast
qed

text \<open>C9. A verification attempt never changes the profile, the enrollment count or the
  lock flag; and an attempt that does not end in an accepting decision returns the state
  exactly as it was.\<close>

theorem authenticateVoice_reject_frame:
  assumes "authenticateVoice st cap = Some (st', out)"
  shows "voiceEmbeddings st' = voiceEmbeddings st
         \<and> recordingCount st' = recordingCount st
         \<and> isLocked st' = isLocked st
         \<and> ((\<forall>v. out = Decision v \<longrightarrow> \<not> accepted v) \<longrightarrow> st' = st)"
  using assms
  by (auto simp: authenticateVoice_def authenticateVoice_onstop_def
      split: if_splits capture.splits option.splits sum.splits fault.splits)

theorem authenticateVoice_reject_frame_witness:
  "\<exists>v. authenticateVoice enrolled_opposite (Captured (replicate 200 0) 8000)
          = Some (enrolled_opposite, Decision v)
        \<and> \<not> accepted v
        \<and> voiceEmbeddings enrolled_opposite = [[- 1], [- 1], [- 1]]
        \<and> recordingCount enrolled_opposite = 3
        \<and> isLocked enrolled_opposite"
proof -
  obtain mfcc where mfcc: "extractMFCC (replicate 200 0) 8000 = Some (Inr mfcc)"
    using extractMFCC_silence_8000 by blast
  have emb: "extractDeepEmbedding enrolled_opposite mfcc = Inr [1]"
    by (simp add: extractDeepEmbedding_unit_model enrolled_opposite_fields)
  let ?c = "- 1 / (1 + 1 / 10 ^ 8) :: real"
  let ?v = "\<lparr>similarities = [?c, ?c, ?c], avgSimilarity = (?c + ?c + ?c) / 3,
             maxSimilarity = ?c, accepted = False\<rparr>"
  have d: "decide (threshold enrolled_opposite)
             (map (cosineSimilarity [1]) (voiceEmbeddings enrolled_opposite)) = Inr ?v"
    by (simp add: decide_def Math_max_def Let_def enrolled_opposite_fields)
  obtain st' where run: "authenticateVoice enrolled_opposite (Captured (replicate 200 0) 8000)
      = Some (st', Decision ?v)"
    using authenticateVoice_onstop_decision[OF mfcc emb d]
    by (simp add: authenticateVoice_def enrolled_opposite_fields)
  from authenticateVoice_reject_frame[OF run] have "st' = enrolled_opposite" by simp
  with run show ?thesis
    by (auto simp: enrolled_opposite_def loadModel_def new_authenticator_def)
qed

section \<open>The lock\<close>

text \<open>C3, as the code has it. Once the lock flag is off it stays off under every sequence
  of events without a reset (captures, verification attempts, unlock timers), and a reset
  turns it on again and empties the profile. A verification attempt changes nothing but
  the number of pending unlock timers, which grows by one exactly when the attempt is
  accepted, whatever the lock flag; and a \<^verbatim>\<open>voiceUnlocked\<close> event is dispatched, once, by
  each unlock timer that fires. So the event is dispatched once for every accepted
  attempt.\<close>

theorem unlocked_until_reset:
  assumes "run st evs = Some st'"
    and "authenticateVoice st cap = Some (st1, out)"
    and "step st ev = Some st2"
  shows "(\<not> isLocked st \<and> ResetClick \<notin> set evs \<longrightarrow> \<not> isLocked st')
         \<and> isLocked (resetVoiceProfile st) \<and> voiceEmbeddings (resetVoiceProfile st) = []
         \<and> st1 = st\<lparr>pendingUnlocks := pendingUnlocks st
                       + (case out of Decision v \<Rightarrow> if accepted v then 1 else 0 | _ \<Rightarrow> 0)\<rparr>
         \<and> dispatched st2 = dispatched st
              @ (if ev = UnlockTimeout \<and> 0 < pendingUnlocks st then [''voiceUnlocked''] else [])
         \<and> (ev = UnlockTimeout \<and> 0 < pendingUnlocks st
              \<longrightarrow> \<not> isLocked st2 \<and> pendingUnlocks st2 = pendingUnlocks st - 1)"
  using run_stays_unlocked[OF _ _ assms(1)] authenticateVoice_effect[OF assms(2)]
    step_dispatched[OF assms(3)] step_unlock_timer[of st st2] assms(3)
  by (auto simp: resetVoiceProfile_def)

theorem unlocked_until_reset_witness:
  "\<not> isLocked unlocked_pending \<and> ResetClick \<notin> set [UnlockTimeout]
   \<and> 0 < pendingUnlocks unlocked_pending
   \<and> (\<exists>st'. run unlocked_pending [UnlockTimeout] = Some st' \<and> \<not> isLocked st')
   \<and> (\<exists>v. accepted v \<and> authenticateVoice unlocked_pending silence_8000
               = Some (unlocked_pending\<lparr>pendingUnlocks := 2\<rparr>, Decision v))
   \<and> (\<exists>st2. step unlocked_pending UnlockTimeout = Some st2
          \<and> dispatched st2 = [''voiceUnlocked'', ''voiceUnlocked'']
          \<and> \<not> isLocked st2 \<and> pendingUnlocks st2 = 0)"
proof -
  have f: "\<not> isLocked unlocked_pending" "pendingUnlocks unlocked_pending = 1"
    "dispatched unlocked_pending = [''voiceUnlocked'']"
    "modelLoaded unlocked_pending" "model unlocked_pending = Some unit_model"
    "threshold unlocked_pending = 0.75" "voiceEmbeddings unlocked_pending = [[1], [1], [1]]"
    by (simp_all add: unlocked_pending_def loaded_unit_fields)
  obtain st2 where s: "step unlocked_pending UnlockTimeout = Some st2"
    by (simp add: step_timer f)
  then have r: "run unlocked_pending [UnlockTimeout] = Some st2" by simp
  obtain v where v: "accepted v" "authenticateVoice unlocked_pending silence_8000
      = Some (unlocked_pending\<lparr>pendingUnlocks := pendingUnlocks unlocked_pending + 1\<rparr>,
              Decision v)"
    using authenticateVoice_unit[OF f(4,5,6,7)] by blast
  from unlocked_until_reset[OF r v(2) s] f v s r
  show ?thesis by auto
qed

text \<open>C3 as stated fails: after three captures, an accepted attempt and its timer, the
  state is unlocked and the event was dispatched once; a second accepted attempt and its
  timer, with no reset in between, dispatch the event a second time.\<close>

theorem second_unlock_event:
  "map_option isLocked
     (run loaded_unit [RecordClick silence_8000, RecordClick silence_8000,
        RecordClick silence_8000, AuthenticateClick silence_8000, UnlockTimeout])
     = Some False
   \<and> map_option dispatched
     (run loaded_unit [RecordClick silence_8000, RecordClick silence_8000,
        RecordClick silence_8000, AuthenticateClick silence_8000, UnlockTimeout])
     = Some [''voiceUnlocked'']
   \<and> map_option dispatched
     (run loaded_unit [RecordClick silence_8000, RecordClick silence_8000,
        RecordClick silence_8000, AuthenticateClick silence_8000, UnlockTimeout,
        AuthenticateClick silence_8000, UnlockTimeout])
     = Some [''voiceUnlocked'', ''voiceUnlocked'']"
  by (simp add: step_record_unit step_authenticate_unit step_timer unlockSystem_def
      loaded_unit_fields)

end
